theory Spec2Isabelle
  imports Complex_Main "HOL-Library.Word"
begin

section \<open>Data model\<close>

text \<open>
  The chatbot agent (package \<open>main\<close> of \<open>chatbot_agent/\<close>) is embedded function by
  function.  Go errors are modelled by their message (\<open>err.Error()\<close>), a function
  returning \<open>(T, error)\<close> by the sum \<open>string + T\<close> (\<open>Inl\<close> the error), pointers that may be
  \<open>nil\<close> by \<open>option\<close>, and a run-time panic by the constructor \<open>Panic\<close> of \<open>go_result\<close>.
  Calls of \<open>log.Printf\<close> are left out.
\<close>

datatype panic = IndexOutOfRange | NilDereference

datatype 'a go_result = Panic panic | Return 'a

text \<open>
  A value of Go's \<open>interface{}\<close> as it occurs in the argument map of a
  \<open>genai.FunctionCall\<close> and in the response map of a \<open>genai.FunctionResponse\<close>.
  A \<open>float64\<close> that came from a JSON number is modelled by the real it denotes.
  \<open>map[string]interface{}\<close> is an association list read with \<open>map_of\<close>.
\<close>

datatype gvalue =
    GNil
  | GBool bool
  | GFloat64 real
  | GString string
  | GList "gvalue list"
  | GMap "(string \<times> gvalue) list"

type_synonym args = "(string \<times> gvalue) list"

text \<open>Messages of \<open>mcp_services.proto\<close> (generated package \<open>pb\<close>).\<close>

record OAuthTokens =
  AccessToken :: string
  RefreshToken :: string
  TokenType :: string
  ExpiryUnix :: "64 word"

record CommonRequest =
  AuthTokens :: "OAuthTokens option"

record CommonResponse =
  Status :: string
  Message :: string

record ListEventsRequest =
  le_Common :: "CommonRequest option"
  le_CalendarId :: string
  le_MaxResults :: "32 word"

record Event =
  ev_Id :: string
  ev_Summary :: string
  ev_Description :: string
  ev_StartTime :: string
  ev_EndTime :: string
  ev_HtmlLink :: string

record ListEventsResponse =
  ler_Common :: "CommonResponse option"
  ler_Events :: "Event list"

record CreateEventRequest =
  ce_Common :: "CommonRequest option"
  ce_CalendarId :: string
  ce_Summary :: string
  ce_Description :: string
  ce_StartTime :: string
  ce_EndTime :: string
  ce_TimeZone :: string

record CreateEventResponse =
  cer_Common :: "CommonResponse option"
  cer_CreatedEvent :: "Event option"

record SendEmailRequest =
  se_Common :: "CommonRequest option"
  se_To :: string
  se_Subject :: string
  se_Body :: string

record SendEmailResponse =
  ser_Common :: "CommonResponse option"
  ser_MessageId :: string

record ListConnectionsRequest =
  lc_Common :: "CommonRequest option"
  lc_PageSize :: "32 word"

record Person =
  p_ResourceName :: string
  p_DisplayName :: string
  p_Email :: string
  p_PhoneNumber :: string

record ListConnectionsResponse =
  lcr_Common :: "CommonResponse option"
  lcr_People :: "Person list"

record CreateContactRequest =
  cc_Common :: "CommonRequest option"
  cc_DisplayName :: string
  cc_Email :: string
  cc_PhoneNumber :: string

record CreateContactResponse =
  ccr_Common :: "CommonResponse option"
  ccr_CreatedContact :: "Person option"

datatype rpc_request =
    ReqListEvents ListEventsRequest
  | ReqCreateEvent CreateEventRequest
  | ReqSendEmail SendEmailRequest
  | ReqListConnections ListConnectionsRequest
  | ReqCreateContact CreateContactRequest

text \<open>
  Package \<open>genai\<close>: a response part is an interface value; the turn driver only tells
  \<open>genai.Text\<close> and \<open>genai.FunctionCall\<close> from the rest.
\<close>

datatype Part =
    Text string
  | FunctionCall string args
  | FunctionResponse string args
  | Blob string

record Content =
  Parts :: "Part list"
  Role :: string

record Candidate =
  cand_Content :: "Content option"

record GenerateContentResponse =
  Candidates :: "Candidate option list"

record ChatSession =
  History :: "Content list"

text \<open>
  \<open>types.go\<close>: the per-user session, the inbound webhook payload and the outbound
  envelope.  \<open>ChatSession\<close> is a pointer into the heap of chat sessions.
\<close>

record UserSession =
  us_ChatSession :: "nat option"
  us_OAuthTokens :: "OAuthTokens option"

record WAContact =
  wc_ProfileName :: string
  wc_WaID :: string

record WAMessage =
  wm_From :: string
  wm_ID :: string
  wm_Timestamp :: string
  wm_TextBody :: string
  wm_Type :: string

record WAValue =
  wv_MessagingProduct :: string
  wv_DisplayPhoneNumberID :: string
  wv_PhoneNumberID :: string
  wv_Contacts :: "WAContact list"
  wv_Messages :: "WAMessage list"

record WAChange =
  wch_Value :: WAValue
  wch_Field :: string

record WAEntry =
  we_ID :: string
  we_Changes :: "WAChange list"

record WhatsAppWebhookPayload =
  Object :: string
  Entry :: "WAEntry list"

record OutgoingWhatsAppMessage =
  MessagingProduct :: string
  To :: string
  Type :: string
  TextBody :: string

record oauth2_Token =
  tok_AccessToken :: string
  tok_TokenType :: string
  tok_RefreshToken :: string
  tok_ExpiryUnix :: "64 word"

text \<open>
  The calls a goroutine makes on its collaborators, in program order.  The list is kept
  in the state so that the properties below can speak about which calls happened.
  \<open>EvPublish subject data\<close> is a call of \<open>nc.Publish\<close>, \<open>EvSubscribe subject\<close> one of
  \<open>nc.Subscribe\<close>, \<open>EvUnsubscribe sub\<close> one of \<open>Unsubscribe\<close> on the subscription \<open>sub\<close>.
\<close>

datatype event =
    EvStartChat
  | EvReadFile string
  | EvSendMessage "Part list"
  | EvToolCall string args
  | EvRPC rpc_request
  | EvPublish string string
  | EvSubscribe string
  | EvUnsubscribe nat

text \<open>
  The collaborators.  Each takes the state \<open>'w\<close> of the outside world and returns the new
  one, so two calls with the same request may answer differently.
  \<open>genai_SendMessage\<close> is \<open>(*genai.ChatSession).SendMessage\<close>: it may change the chat session
  it is called on.  \<open>int32_overflow\<close> is the platform's result of \<open>int32(x)\<close> for a
  \<open>float64\<close> whose truncation does not fit 32 bits (implementation-dependent in Go).
  The \<open>json_\<close> fields stand for \<open>encoding/json\<close> at the types the program uses it at
  (the error of \<open>json_Marshal\<close> is discarded by its caller).
  \<open>nats_Subscribe\<close> returns the new subscription or the error of \<open>nc.Subscribe\<close>.
  \<open>select_Wait sub timeout\<close> is which branch of the \<open>select\<close> of \<open>GetResponseFromNATS\<close>
  fires: \<open>Some data\<close> when the bus hands a message with that data to the callback of \<open>sub\<close>
  and the callback's send on the channel is received before \<open>time.After(timeout)\<close>,
  \<open>None\<close> when the timer fires first.
\<close>

record 'w env =
  rpc_ListEvents :: "ListEventsRequest \<Rightarrow> 'w \<Rightarrow> (string + ListEventsResponse) \<times> 'w"
  rpc_CreateEvent :: "CreateEventRequest \<Rightarrow> 'w \<Rightarrow> (string + CreateEventResponse) \<times> 'w"
  rpc_SendEmail :: "SendEmailRequest \<Rightarrow> 'w \<Rightarrow> (string + SendEmailResponse) \<times> 'w"
  rpc_ListConnections ::
    "ListConnectionsRequest \<Rightarrow> 'w \<Rightarrow> (string + ListConnectionsResponse) \<times> 'w"
  rpc_CreateContact :: "CreateContactRequest \<Rightarrow> 'w \<Rightarrow> (string + CreateContactResponse) \<times> 'w"
  genai_StartChat :: "'w \<Rightarrow> ChatSession \<times> 'w"
  genai_SendMessage ::
    "ChatSession \<Rightarrow> Part list \<Rightarrow> 'w \<Rightarrow> (string + GenerateContentResponse) \<times> ChatSession \<times> 'w"
  ioutil_ReadFile :: "string \<Rightarrow> 'w \<Rightarrow> (string + string) \<times> 'w"
  json_UnmarshalToken :: "string \<Rightarrow> string + oauth2_Token"
  json_Marshal :: "OutgoingWhatsAppMessage \<Rightarrow> string"
  json_MarshalPayload :: "WhatsAppWebhookPayload \<Rightarrow> string + string"
  json_UnmarshalPayload :: "string \<Rightarrow> string + WhatsAppWebhookPayload"
  json_UnmarshalOutgoing :: "string \<Rightarrow> string + OutgoingWhatsAppMessage"
  nats_Publish :: "string \<Rightarrow> string \<Rightarrow> 'w \<Rightarrow> string option \<times> 'w"
  nats_Subscribe :: "string \<Rightarrow> 'w \<Rightarrow> (string + nat) \<times> 'w"
  nats_Unsubscribe :: "nat \<Rightarrow> 'w \<Rightarrow> string option \<times> 'w"
  select_Wait :: "nat \<Rightarrow> 64 word \<Rightarrow> 'w \<Rightarrow> string option \<times> 'w"
  int32_overflow :: "real \<Rightarrow> 32 word"

text \<open>
  The program state: the global map \<open>userSessions\<close> (user id to pointer), the heap of
  allocated \<open>UserSession\<close> structs and the heap of \<open>genai.ChatSession\<close> objects
  (\<open>nextAddr\<close> and \<open>nextChat\<close> are the next fresh addresses), the outside world, and the
  calls made so far.
\<close>

record 'w state =
  userSessions :: "string \<Rightarrow> nat option"
  heap :: "nat \<Rightarrow> UserSession"
  nextAddr :: nat
  chats :: "nat \<Rightarrow> ChatSession"
  nextChat :: nat
  world :: 'w
  trace :: "event list"

section \<open>Tool dispatcher (\<open>mcp_clients.go\<close>)\<close>

definition apos :: string where
  "apos = [CHR 0x27]"

text \<open>\<open>val, ok := args[k].(string)\<close>\<close>

definition assertString :: "args \<Rightarrow> string \<Rightarrow> string option" where
  "assertString as k = (case map_of as k of Some (GString v) \<Rightarrow> Some v | _ \<Rightarrow> None)"

text \<open>\<open>val, ok := args[k].(float64)\<close>\<close>

definition assertFloat64 :: "args \<Rightarrow> string \<Rightarrow> real option" where
  "assertFloat64 as k = (case map_of as k of Some (GFloat64 v) \<Rightarrow> Some v | _ \<Rightarrow> None)"

text \<open>\<open>v, _ := args[k].(string)\<close>: the zero value when the assertion fails.\<close>

definition stringOrZero :: "args \<Rightarrow> string \<Rightarrow> string" where
  "stringOrZero as k = (case assertString as k of Some v \<Rightarrow> v | None \<Rightarrow> [])"

text \<open>\<open>int32(val)\<close> for a \<open>float64\<close>: truncation toward zero when the result fits.\<close>

definition toInt32 :: "'w env \<Rightarrow> real \<Rightarrow> 32 word" where
  "toInt32 env x =
     (let t = (if 0 \<le> x then \<lfloor>x\<rfloor> else \<lceil>x\<rceil>)
      in if - (2 ^ 31) \<le> t \<and> t < 2 ^ 31 then word_of_int t else int32_overflow env x)"

definition logk :: "event \<Rightarrow> 'w state \<Rightarrow> 'w state" where
  "logk e s = s\<lparr>trace := trace s @ [e]\<rparr>"

definition eventSummary :: "Event \<Rightarrow> string" where
  "eventSummary e =
     ''ID: '' @ ev_Id e @ '', Summary: '' @ apos @ ev_Summary e @ apos @ '', Start: '' @ ev_StartTime e"

definition contactSummary :: "Person \<Rightarrow> string" where
  "contactSummary p =
     ''Name: '' @ p_DisplayName p @ '', Email: '' @ p_Email p @ '', Phone: '' @ p_PhoneNumber p"

text \<open>
  The common tail of every handler: \<open>err != nil\<close> gives the "RPC failed" error,
  \<open>resp.Common.Status == "ERROR"\<close> the "MCP error" (a nil \<open>Common\<close> panics on the field
  read), anything else the success payload \<open>payload\<close>, which may itself dereference.
\<close>

definition handleResponse ::
  "string \<Rightarrow> (string + 'r) \<Rightarrow> ('r \<Rightarrow> CommonResponse option) \<Rightarrow> ('r \<Rightarrow> gvalue go_result)
     \<Rightarrow> (string + gvalue) go_result" where
  "handleResponse toolName res common payload =
     (case res of
        Inl err \<Rightarrow> Return (Inl (toolName @ '' RPC failed: '' @ err))
      | Inr resp \<Rightarrow>
          (case common resp of
             None \<Rightarrow> Panic NilDereference
           | Some c \<Rightarrow>
               if Status c = ''ERROR'' then Return (Inl (toolName @ '' MCP error: '' @ Message c))
               else (case payload resp of Panic p \<Rightarrow> Panic p | Return v \<Rightarrow> Return (Inr v))))"

definition knownTools :: "string list" where
  "knownTools =
     [''list_calendar_events'', ''create_calendar_event'', ''send_email'', ''list_contacts'',
      ''create_contact'']"

definition ExecuteToolCall ::
  "'w env \<Rightarrow> string \<Rightarrow> OAuthTokens option \<Rightarrow> string \<Rightarrow> args \<Rightarrow> 'w state
     \<Rightarrow> (string + gvalue) go_result \<times> 'w state" where
  "ExecuteToolCall env userID tokens toolName as s0 =
     (let commonReq = Some \<lparr>AuthTokens = tokens\<rparr>;
          s = logk (EvToolCall toolName as) s0
      in
      if toolName = ''list_calendar_events'' then
        (let calendarID = (case assertString as ''calendar_id'' of Some v \<Rightarrow> v | None \<Rightarrow> ''primary'');
             maxResults = (case assertFloat64 as ''max_results'' of
                             Some v \<Rightarrow> toInt32 env v | None \<Rightarrow> 10);
             req = \<lparr>le_Common = commonReq, le_CalendarId = calendarID, le_MaxResults = maxResults\<rparr>;
             (res, w) = rpc_ListEvents env req (world s);
             s' = (logk (EvRPC (ReqListEvents req)) s)\<lparr>world := w\<rparr>
         in (handleResponse toolName res ler_Common
               (\<lambda>resp. Return (GMap [(''events'', GList (map (GString \<circ> eventSummary) (ler_Events resp)))])),
             s'))
      else if toolName = ''create_calendar_event'' then
        (let req = \<lparr>ce_Common = commonReq,
                    ce_CalendarId = stringOrZero as ''calendar_id'',
                    ce_Summary = stringOrZero as ''summary'',
                    ce_Description = stringOrZero as ''description'',
                    ce_StartTime = stringOrZero as ''start_time'',
                    ce_EndTime = stringOrZero as ''end_time'',
                    ce_TimeZone = stringOrZero as ''time_zone''\<rparr>;
             (res, w) = rpc_CreateEvent env req (world s);
             s' = (logk (EvRPC (ReqCreateEvent req)) s)\<lparr>world := w\<rparr>
         in (handleResponse toolName res cer_Common
               (\<lambda>resp. case cer_CreatedEvent resp of
                          None \<Rightarrow> Panic NilDereference
                        | Some e \<Rightarrow> Return (GMap [(''event_id'', GString (ev_Id e)),
                                                   (''summary'', GString (ev_Summary e)),
                                                   (''link'', GString (ev_HtmlLink e))])),
             s'))
      else if toolName = ''send_email'' then
        (let req = \<lparr>se_Common = commonReq,
                    se_To = stringOrZero as ''to'',
                    se_Subject = stringOrZero as ''subject'',
                    se_Body = stringOrZero as ''body''\<rparr>;
             (res, w) = rpc_SendEmail env req (world s);
             s' = (logk (EvRPC (ReqSendEmail req)) s)\<lparr>world := w\<rparr>
         in (handleResponse toolName res ser_Common
               (\<lambda>resp. Return (GMap [(''message_id'', GString (ser_MessageId resp))])),
             s'))
      else if toolName = ''list_contacts'' then
        (let pageSize = (case assertFloat64 as ''page_size'' of
                           Some v \<Rightarrow> toInt32 env v | None \<Rightarrow> 10);
             req = \<lparr>lc_Common = commonReq, lc_PageSize = pageSize\<rparr>;
             (res, w) = rpc_ListConnections env req (world s);
             s' = (logk (EvRPC (ReqListConnections req)) s)\<lparr>world := w\<rparr>
         in (handleResponse toolName res lcr_Common
               (\<lambda>resp. Return (GMap [(''contacts'', GList (map (GString \<circ> contactSummary) (lcr_People resp)))])),
             s'))
      else if toolName = ''create_contact'' then
        (let req = \<lparr>cc_Common = commonReq,
                    cc_DisplayName = stringOrZero as ''display_name'',
                    cc_Email = stringOrZero as ''email'',
                    cc_PhoneNumber = stringOrZero as ''phone_number''\<rparr>;
             (res, w) = rpc_CreateContact env req (world s);
             s' = (logk (EvRPC (ReqCreateContact req)) s)\<lparr>world := w\<rparr>
         in (handleResponse toolName res ccr_Common
               (\<lambda>resp. case ccr_CreatedContact resp of
                          None \<Rightarrow> Panic NilDereference
                        | Some p \<Rightarrow> Return (GMap [(''contact_name'', GString (p_DisplayName p)),
                                                   (''contact_id'', GString (p_ResourceName p))])),
             s'))
      else (Return (Inl (''unknown tool: '' @ toolName)), s))"

section \<open>Session store (\<open>session_manager.go\<close>)\<close>

definition emptySession :: UserSession where
  "emptySession = \<lparr>us_ChatSession = None, us_OAuthTokens = None\<rparr>"

text \<open>Lines 22 and 23: \<open>session = &UserSession{}; userSessions[userID] = session\<close>.\<close>

definition insertSession :: "string \<Rightarrow> 'w state \<Rightarrow> nat \<times> 'w state" where
  "insertSession userID s =
     (let a = nextAddr s
      in (a, s\<lparr>userSessions := (userSessions s)(userID \<mapsto> a),
                heap := (heap s)(a := emptySession),
                nextAddr := Suc a\<rparr>))"

text \<open>
  \<open>GetOrCreateUserSession\<close>: the whole body runs between \<open>sessionsMutex.Lock()\<close> and the
  deferred \<open>Unlock()\<close>; for a goroutine running alone it is this state transformer.  It
  returns the pointer and the \<open>ok\<close> of the lookup.  The section on goroutines below runs
  the same lines one step at a time, with the mutex.
\<close>

definition GetOrCreateUserSession :: "string \<Rightarrow> 'w state \<Rightarrow> (nat \<times> bool) \<times> 'w state" where
  "GetOrCreateUserSession userID s =
     (case userSessions s userID of
        Some a \<Rightarrow> ((a, True), s)
      | None \<Rightarrow> (let (a, s') = insertSession userID s in ((a, False), s')))"

text \<open>
  \<open>UpdateUserSessionTokens\<close>: its body, which also runs between \<open>Lock\<close> and the deferred
  \<open>Unlock\<close> of \<open>sessionsMutex\<close>.
\<close>

definition UpdateUserSessionTokens :: "string \<Rightarrow> OAuthTokens option \<Rightarrow> 'w state \<Rightarrow> 'w state" where
  "UpdateUserSessionTokens userID tokens s =
     (case userSessions s userID of
        Some a \<Rightarrow> s\<lparr>heap := (heap s)(a := (heap s a)\<lparr>us_OAuthTokens := tokens\<rparr>)\<rparr>
      | None \<Rightarrow> s)"

section \<open>Credential source (\<open>LoadAndPrepareTokens\<close>, \<open>mcp_clients.go\<close>)\<close>

definition tokenCacheFile :: string where
  "tokenCacheFile = ''token.json''"

definition LoadAndPrepareTokens ::
  "'w env \<Rightarrow> 'w state \<Rightarrow> (string + oauth2_Token \<times> OAuthTokens) \<times> 'w state" where
  "LoadAndPrepareTokens env s =
     (let (r, w) = ioutil_ReadFile env tokenCacheFile (world s);
          s' = (logk (EvReadFile tokenCacheFile) s)\<lparr>world := w\<rparr>
      in case r of
           Inl err \<Rightarrow>
             (Inl (''unable to read '' @ tokenCacheFile @ '': '' @ err
                   @ ''. Please ensure the MCP server has run and authorized.''), s')
         | Inr b \<Rightarrow>
             (case json_UnmarshalToken env b of
                Inl err \<Rightarrow> (Inl (''unable to unmarshal '' @ tokenCacheFile @ '': '' @ err), s')
              | Inr tok \<Rightarrow>
                  (Inr (tok, \<lparr>AccessToken = tok_AccessToken tok,
                              RefreshToken = tok_RefreshToken tok,
                              TokenType = tok_TokenType tok,
                              ExpiryUnix = tok_ExpiryUnix tok\<rparr>), s')))"

section \<open>Bus (\<open>nats_queue.go\<close>)\<close>

definition natsSubject :: string where
  "natsSubject = ''incoming.messages''"

definition natsResponseSubjectPrefix :: string where
  "natsResponseSubjectPrefix = ''response.messages.''"

text \<open>\<open>PublishIncomingMessage\<close> returns an \<open>error\<close>: \<open>None\<close> is \<open>nil\<close>.\<close>

definition PublishIncomingMessage ::
  "'w env \<Rightarrow> WhatsAppWebhookPayload \<Rightarrow> 'w state \<Rightarrow> string option \<times> 'w state" where
  "PublishIncomingMessage env payload s =
     (case json_MarshalPayload env payload of
        Inl err \<Rightarrow> (Some (''error marshalling WhatsApp payload: '' @ err), s)
      | Inr payloadBytes \<Rightarrow>
          (let (r, w) = nats_Publish env natsSubject payloadBytes (world s);
               s' = (logk (EvPublish natsSubject payloadBytes) s)\<lparr>world := w\<rparr>
           in case r of
                Some err \<Rightarrow> (Some (''error publishing incoming webhook to NATS: '' @ err), s')
              | None \<Rightarrow> (None, s')))"

definition outgoing :: "string \<Rightarrow> string \<Rightarrow> OutgoingWhatsAppMessage" where
  "outgoing userID message =
     \<lparr>MessagingProduct = ''whatsapp'', To = userID, Type = ''text'', TextBody = message\<rparr>"

text \<open>
  \<open>SendResponse\<close> has no result.  On a publish error it logs one line, otherwise another
  (\<open>log.Printf\<close> is not modelled), so the two branches of its \<open>if\<close> are one here.
\<close>

definition SendResponse :: "'w env \<Rightarrow> string \<Rightarrow> string \<Rightarrow> 'w state \<Rightarrow> 'w state" where
  "SendResponse env userID message s =
     (let respBytes = json_Marshal env (outgoing userID message);
          subject = natsResponseSubjectPrefix @ userID;
          (r, w) = nats_Publish env subject respBytes (world s)
      in case r of
           Some err \<Rightarrow> (logk (EvPublish subject respBytes) s)\<lparr>world := w\<rparr>
         | None \<Rightarrow> (logk (EvPublish subject respBytes) s)\<lparr>world := w\<rparr>)"



section \<open>Turn driver (\<open>processMessage\<close>, \<open>main.go\<close>)\<close>

definition authMessage :: string where
  "authMessage = ''Lo siento, necesito que autorices tu cuenta de Google. Puedes hacerlo siguiendo las instrucciones del servidor MCP. (Error: ''"

definition modelErrorMessage :: string where
  "modelErrorMessage = ''Lo siento, hubo un error al procesar tu solicitud con el modelo de IA. Intenta de nuevo.''"

definition toolErrorMessage :: string where
  "toolErrorMessage = ''Lo siento, hubo un error al comunicar el resultado de las acciones.''"

definition fallbackMessage :: string where
  "fallbackMessage = ''Lo siento, no pude generar una respuesta clara.''"

text \<open>Lines 120 to 122: a chat session is started when the session has none.\<close>

definition startChat :: "'w env \<Rightarrow> nat \<Rightarrow> 'w state \<Rightarrow> 'w state" where
  "startChat env a s =
     (if us_ChatSession (heap s a) = None then
        (let (cs, w) = genai_StartChat env (world s);
             c = nextChat s
         in (logk EvStartChat s)
              \<lparr>chats := (chats s)(c := cs),
               nextChat := Suc c,
               heap := (heap s)(a := (heap s a)\<lparr>us_ChatSession := Some c\<rparr>),
               world := w\<rparr>)
      else s)"

text \<open>
  Lines 124 to 131: the credential check up to the call of \<open>UpdateUserSessionTokens\<close>.
  \<open>CredsFailed\<close>: the explanatory message was sent and the function returns.
\<close>

datatype creds = CredsPresent | CredsFailed | CredsLoaded OAuthTokens

definition loadCredentials :: "'w env \<Rightarrow> string \<Rightarrow> nat \<Rightarrow> 'w state \<Rightarrow> creds \<times> 'w state" where
  "loadCredentials env userID a s =
     (if us_OAuthTokens (heap s a) = None then
        (case LoadAndPrepareTokens env s of
           (Inl err, s') \<Rightarrow> (CredsFailed, SendResponse env userID (authMessage @ err @ '')'') s')
         | (Inr (tok, loadedPBTokens), s') \<Rightarrow> (CredsLoaded loadedPBTokens, s'))
      else (CredsPresent, s))"

text \<open>
  Lines 136 to 140: \<open>geminiChatSession := session.ChatSession\<close> and the append to its
  \<open>History\<close> (a nil pointer panics on the field read).  The result is the pointer.
\<close>

definition appendUser :: "string \<Rightarrow> nat \<Rightarrow> 'w state \<Rightarrow> (panic + nat) \<times> 'w state" where
  "appendUser txt a s =
     (case us_ChatSession (heap s a) of
        None \<Rightarrow> (Inl NilDereference, s)
      | Some c \<Rightarrow>
          (Inr c,
           s\<lparr>chats := (chats s)
                (c := (chats s c)\<lparr>History := History (chats s c)
                                      @ [\<lparr>Parts = [Text txt], Role = ''user''\<rparr>]\<rparr>)\<rparr>))"

text \<open>\<open>geminiChatSession.SendMessage(ctx, parts...)\<close> on the chat session at \<open>c\<close>.\<close>

definition chatSend ::
  "'w env \<Rightarrow> nat \<Rightarrow> Part list \<Rightarrow> 'w state \<Rightarrow> (string + GenerateContentResponse) \<times> 'w state" where
  "chatSend env c parts s =
     (let (res, cs', w) = genai_SendMessage env (chats s c) parts (world s)
      in (res, (logk (EvSendMessage parts) s)\<lparr>chats := (chats s)(c := cs'), world := w\<rparr>))"

text \<open>\<open>resp.Candidates[0].Content.Parts\<close>: the index and both pointer reads can panic.\<close>

definition firstCandidateParts :: "GenerateContentResponse \<Rightarrow> Part list go_result" where
  "firstCandidateParts resp =
     (case Candidates resp of
        [] \<Rightarrow> Panic IndexOutOfRange
      | None # _ \<Rightarrow> Panic NilDereference
      | Some cand # _ \<Rightarrow>
          (case cand_Content cand of
             None \<Rightarrow> Panic NilDereference
           | Some ct \<Rightarrow> Return (Parts ct)))"

text \<open>
  The loop over the parts of the first response (lines 153 to 202).  \<open>LoopReturn\<close>: the
  function returned from inside the loop; \<open>LoopDone h trs\<close>: the loop ran to its end with
  \<open>hasToolCalls = h\<close> and \<open>toolResponses = trs\<close>.  \<open>a\<close> is the \<open>session\<close> pointer.
\<close>

datatype loop_result = LoopReturn | LoopPanic panic | LoopDone bool "Part list"

fun toolLoop ::
  "'w env \<Rightarrow> string \<Rightarrow> nat \<Rightarrow> Part list \<Rightarrow> bool \<Rightarrow> Part list \<Rightarrow> 'w state
     \<Rightarrow> loop_result \<times> 'w state" where
  "toolLoop env userID a [] hasToolCalls toolResponses s = (LoopDone hasToolCalls toolResponses, s)"
| "toolLoop env userID a (FunctionCall name as # rest) hasToolCalls toolResponses s =
     (case ExecuteToolCall env userID (us_OAuthTokens (heap s a)) name as s of
        (Panic p, s') \<Rightarrow> (LoopPanic p, s')
      | (Return (Inl toolErr), s') \<Rightarrow>
          toolLoop env userID a rest True
            (toolResponses @ [FunctionResponse name [(''error'', GString toolErr)]]) s'
      | (Return (Inr toolOutput), s') \<Rightarrow>
          toolLoop env userID a rest True
            (toolResponses @ [FunctionResponse name [(''result'', toolOutput)]]) s')"
| "toolLoop env userID a (Text txt # rest) hasToolCalls toolResponses s =
     (if \<not> hasToolCalls then (LoopReturn, SendResponse env userID txt s)
      else toolLoop env userID a rest hasToolCalls toolResponses s)"
| "toolLoop env userID a (_ # rest) hasToolCalls toolResponses s =
     toolLoop env userID a rest hasToolCalls toolResponses s"

text \<open>The loop over the parts of the second response (lines 214 to 219).\<close>

fun firstText :: "Part list \<Rightarrow> string option" where
  "firstText [] = None"
| "firstText (Text txt # rest) = Some txt"
| "firstText (_ # rest) = firstText rest"

text \<open>Lines 204 to 222: resubmission, final extraction and fallback.\<close>

definition finishTurn ::
  "'w env \<Rightarrow> string \<Rightarrow> nat \<Rightarrow> bool \<Rightarrow> Part list \<Rightarrow> 'w state \<Rightarrow> panic option \<times> 'w state" where
  "finishTurn env userID c hasToolCalls toolResponses s =
     (if hasToolCalls then
        (case chatSend env c toolResponses s of
           (Inl err, s') \<Rightarrow> (None, SendResponse env userID toolErrorMessage s')
         | (Inr respAfterTool, s') \<Rightarrow>
             (case firstCandidateParts respAfterTool of
                Panic p \<Rightarrow> (Some p, s')
              | Return finalParts \<Rightarrow>
                  (case firstText finalParts of
                     Some txt \<Rightarrow> (None, SendResponse env userID txt s')
                   | None \<Rightarrow> (None, SendResponse env userID fallbackMessage s'))))
      else (None, SendResponse env userID fallbackMessage s))"

text \<open>
  Lines 142 to 223: the submission of the user's text and everything after it.  The
  result is the panic that ended the goroutine, if any.
\<close>

definition submit ::
  "'w env \<Rightarrow> string \<Rightarrow> string \<Rightarrow> nat \<Rightarrow> nat \<Rightarrow> 'w state \<Rightarrow> panic option \<times> 'w state" where
  "submit env userID txt a c s =
     (case chatSend env c [Text txt] s of
        (Inl err, s1) \<Rightarrow> (None, SendResponse env userID modelErrorMessage s1)
      | (Inr resp, s1) \<Rightarrow>
          (case firstCandidateParts resp of
             Panic p \<Rightarrow> (Some p, s1)
           | Return parts \<Rightarrow>
               (case toolLoop env userID a parts False [] s1 of
                  (LoopReturn, s2) \<Rightarrow> (None, s2)
                | (LoopPanic p, s2) \<Rightarrow> (Some p, s2)
                | (LoopDone hasToolCalls toolResponses, s2) \<Rightarrow>
                    finishTurn env userID c hasToolCalls toolResponses s2)))"

text \<open>Lines 136 to 223.\<close>

definition turnBody ::
  "'w env \<Rightarrow> string \<Rightarrow> string \<Rightarrow> nat \<Rightarrow> 'w state \<Rightarrow> panic option \<times> 'w state" where
  "turnBody env userID txt a s =
     (case appendUser txt a s of
        (Inl p, s') \<Rightarrow> (Some p, s')
      | (Inr c, s') \<Rightarrow> submit env userID txt a c s')"

text \<open>\<open>processMessage\<close> as one goroutine runs it when no other goroutine interferes.\<close>

definition processMessage ::
  "'w env \<Rightarrow> string \<Rightarrow> string \<Rightarrow> 'w state \<Rightarrow> panic option \<times> 'w state" where
  "processMessage env userID txt s0 =
     (let ((a, ok), s1) = GetOrCreateUserSession userID s0;
          s2 = startChat env a s1
      in case loadCredentials env userID a s2 of
           (CredsFailed, s3) \<Rightarrow> (None, s3)
         | (CredsLoaded loadedPBTokens, s3) \<Rightarrow>
             turnBody env userID txt a (UpdateUserSessionTokens userID (Some loadedPBTokens) s3)
         | (CredsPresent, s3) \<Rightarrow> turnBody env userID txt a s3)"

section \<open>Goroutines (\<open>main\<close>, lines 54 to 75, and the mutex of the session store)\<close>

text \<open>
  The subscription callback of \<open>main\<close> starts \<open>processMessage\<close> in a goroutine of its own
  for every inbound message (\<open>go processMessage(...)\<close>).  A goroutine is its arguments
  and the place it has reached: the four places inside \<open>GetOrCreateUserSession\<close> (before
  \<open>Lock\<close>, before the lookup, before the insert, before the return that runs the deferred
  \<open>Unlock\<close>), then the places of \<open>processMessage\<close> after that call, each holding the
  \<open>session\<close> pointer: line 120, line 124, the three places of the call of
  \<open>UpdateUserSessionTokens\<close> at line 132 (before its \<open>Lock\<close>, before its body, before the
  return that runs its deferred \<open>Unlock\<close>), line 136, and line 142 (with the
  \<open>geminiChatSession\<close> pointer).  The code between two places is one step; only
  \<open>sessionsMutex\<close> orders the steps of different goroutines.
\<close>

datatype pc =
    AtLock
  | AtLookup
  | AtInsert
  | AtUnlock nat bool
  | AtStartChat nat
  | AtCreds nat
  | AtUpdate nat OAuthTokens
  | AtUpdateBody nat OAuthTokens
  | AtUpdateUnlock nat
  | AtAppend nat
  | AtSubmit nat nat
  | Done "panic option"

record goroutine =
  g_userID :: string
  g_text :: string
  g_pc :: pc

record 'w sys =
  mutex :: "nat option"
  goroutines :: "goroutine list"
  shared :: "'w state"

definition initSys :: "'w state \<Rightarrow> 'w sys" where
  "initSys s = \<lparr>mutex = None, goroutines = [], shared = s\<rparr>"

definition spawn :: "string \<Rightarrow> string \<Rightarrow> 'w sys \<Rightarrow> 'w sys" where
  "spawn userID textBody sy =
     sy\<lparr>goroutines := goroutines sy @ [\<lparr>g_userID = userID, g_text = textBody, g_pc = AtLock\<rparr>]\<rparr>"

text \<open>The callback passed to \<open>SubscribeToIncomingMessages\<close> on the data of one message.\<close>

definition onIncoming :: "'w env \<Rightarrow> string \<Rightarrow> 'w sys \<Rightarrow> 'w sys" where
  "onIncoming env msgData sy =
     (case json_UnmarshalPayload env msgData of
        Inl err \<Rightarrow> sy
      | Inr whatsappPayload \<Rightarrow>
          (case Entry whatsappPayload of
             [] \<Rightarrow> sy
           | e # _ \<Rightarrow>
               (case we_Changes e of
                  [] \<Rightarrow> sy
                | ch # _ \<Rightarrow>
                    (case wv_Messages (wch_Value ch) of
                       [] \<Rightarrow> sy
                     | message # _ \<Rightarrow>
                         if wm_From message \<noteq> [] \<and> wm_TextBody message \<noteq> []
                         then spawn (wm_From message) (wm_TextBody message) sy
                         else sy))))"

definition setPc :: "nat \<Rightarrow> pc \<Rightarrow> 'w sys \<Rightarrow> 'w sys" where
  "setPc i p sy = sy\<lparr>goroutines := (goroutines sy)[i := (goroutines sy ! i)\<lparr>g_pc := p\<rparr>]\<rparr>"

text \<open>
  One step of goroutine \<open>i\<close>; \<open>None\<close> when it cannot move (it waits for the mutex, it has
  ended, or there is no such goroutine).
\<close>

definition step :: "'w env \<Rightarrow> nat \<Rightarrow> 'w sys \<Rightarrow> 'w sys option" where
  "step env i sy =
     (if i < length (goroutines sy) then
        (let g = goroutines sy ! i; s = shared sy
         in case g_pc g of
              AtLock \<Rightarrow>
                if mutex sy = None then Some (setPc i AtLookup (sy\<lparr>mutex := Some i\<rparr>)) else None
            | AtLookup \<Rightarrow>
                (case userSessions s (g_userID g) of
                   Some a \<Rightarrow> Some (setPc i (AtUnlock a True) sy)
                 | None \<Rightarrow> Some (setPc i AtInsert sy))
            | AtInsert \<Rightarrow>
                (let (a, s') = insertSession (g_userID g) s
                 in Some (setPc i (AtUnlock a False) (sy\<lparr>shared := s'\<rparr>)))
            | AtUnlock a ok \<Rightarrow> Some (setPc i (AtStartChat a) (sy\<lparr>mutex := None\<rparr>))
            | AtStartChat a \<Rightarrow> Some (setPc i (AtCreds a) (sy\<lparr>shared := startChat env a s\<rparr>))
            | AtCreds a \<Rightarrow>
                (case loadCredentials env (g_userID g) a s of
                   (CredsPresent, s') \<Rightarrow> Some (setPc i (AtAppend a) (sy\<lparr>shared := s'\<rparr>))
                 | (CredsFailed, s') \<Rightarrow> Some (setPc i (Done None) (sy\<lparr>shared := s'\<rparr>))
                 | (CredsLoaded t, s') \<Rightarrow> Some (setPc i (AtUpdate a t) (sy\<lparr>shared := s'\<rparr>)))
            | AtUpdate a t \<Rightarrow>
                if mutex sy = None then Some (setPc i (AtUpdateBody a t) (sy\<lparr>mutex := Some i\<rparr>))
                else None
            | AtUpdateBody a t \<Rightarrow>
                Some (setPc i (AtUpdateUnlock a)
                        (sy\<lparr>shared := UpdateUserSessionTokens (g_userID g) (Some t) s\<rparr>))
            | AtUpdateUnlock a \<Rightarrow> Some (setPc i (AtAppend a) (sy\<lparr>mutex := None\<rparr>))
            | AtAppend a \<Rightarrow>
                (case appendUser (g_text g) a s of
                   (Inl p, s') \<Rightarrow> Some (setPc i (Done (Some p)) (sy\<lparr>shared := s'\<rparr>))
                 | (Inr c, s') \<Rightarrow> Some (setPc i (AtSubmit a c) (sy\<lparr>shared := s'\<rparr>)))
            | AtSubmit a c \<Rightarrow>
                (case submit env (g_userID g) (g_text g) a c s of
                   (r, s') \<Rightarrow> Some (setPc i (Done r) (sy\<lparr>shared := s'\<rparr>)))
            | Done r \<Rightarrow> None)
      else None)"

text \<open>A run: inbound messages are delivered and goroutines are scheduled in any order.\<close>

datatype action = Deliver string | Step nat

definition exec :: "'w env \<Rightarrow> action \<Rightarrow> 'w sys \<Rightarrow> 'w sys option" where
  "exec env act sy = (case act of Deliver d \<Rightarrow> Some (onIncoming env d sy) | Step i \<Rightarrow> step env i sy)"

fun run :: "'w env \<Rightarrow> action list \<Rightarrow> 'w sys \<Rightarrow> 'w sys option" where
  "run env [] sy = Some sy"
| "run env (act # acts) sy =
     (case exec env act sy of None \<Rightarrow> None | Some sy' \<Rightarrow> run env acts sy')"

text \<open>The session pointer a goroutine holds once \<open>GetOrCreateUserSession\<close> has computed it.\<close>

fun sessionOf :: "pc \<Rightarrow> nat option" where
  "sessionOf (AtUnlock a ok) = Some a"
| "sessionOf (AtStartChat a) = Some a"
| "sessionOf (AtCreds a) = Some a"
| "sessionOf (AtUpdate a t) = Some a"
| "sessionOf (AtUpdateBody a t) = Some a"
| "sessionOf (AtUpdateUnlock a) = Some a"
| "sessionOf (AtAppend a) = Some a"
| "sessionOf (AtSubmit a c) = Some a"
| "sessionOf _ = None"

text \<open>Inside the critical section of \<open>GetOrCreateUserSession\<close>.\<close>

fun inCritical :: "pc \<Rightarrow> bool" where
  "inCritical AtLookup = True"
| "inCritical AtInsert = True"
| "inCritical (AtUnlock a ok) = True"
| "inCritical _ = False"

text \<open>
  Between \<open>Lock\<close> and \<open>Unlock\<close> of \<open>sessionsMutex\<close>, in either function of the session
  store.
\<close>

fun holdsLock :: "pc \<Rightarrow> bool" where
  "holdsLock AtLookup = True"
| "holdsLock AtInsert = True"
| "holdsLock (AtUnlock a ok) = True"
| "holdsLock (AtUpdateBody a t) = True"
| "holdsLock (AtUpdateUnlock a) = True"
| "holdsLock _ = False"

text \<open>Between the return of \<open>GetOrCreateUserSession\<close> and the end of \<open>processMessage\<close>.\<close>

fun inTurn :: "pc \<Rightarrow> bool" where
  "inTurn (AtStartChat a) = True"
| "inTurn (AtCreds a) = True"
| "inTurn (AtUpdate a t) = True"
| "inTurn (AtUpdateBody a t) = True"
| "inTurn (AtUpdateUnlock a) = True"
| "inTurn (AtAppend a) = True"
| "inTurn (AtSubmit a c) = True"
| "inTurn _ = False"

section \<open>Reading the list of calls\<close>

fun isModelCall :: "event \<Rightarrow> bool" where
  "isModelCall (EvSendMessage parts) = True"
| "isModelCall _ = False"

fun isToolEvent :: "event \<Rightarrow> bool" where
  "isToolEvent (EvToolCall name as) = True"
| "isToolEvent (EvRPC req) = True"
| "isToolEvent _ = False"

fun isPublish :: "event \<Rightarrow> bool" where
  "isPublish (EvPublish subject b) = True"
| "isPublish _ = False"

text \<open>The calls made between two states of one run.\<close>

definition added :: "'w state \<Rightarrow> 'w state \<Rightarrow> event list" where
  "added s s' = drop (length (trace s)) (trace s')"

text \<open>The calls that follow the \<open>n\<close>-th submission to the model.\<close>

fun afterModelCalls :: "nat \<Rightarrow> event list \<Rightarrow> event list" where
  "afterModelCalls 0 es = es"
| "afterModelCalls (Suc n) [] = []"
| "afterModelCalls (Suc n) (e # es) =
     (if isModelCall e then afterModelCalls n es else afterModelCalls (Suc n) es)"

text \<open>The tool invocations of a response, in order.\<close>

fun invocations :: "Part list \<Rightarrow> (string \<times> args) list" where
  "invocations [] = []"
| "invocations (FunctionCall name as # rest) = (name, as) # invocations rest"
| "invocations (_ # rest) = invocations rest"

fun toolCallsOf :: "event list \<Rightarrow> (string \<times> args) list" where
  "toolCallsOf [] = []"
| "toolCallsOf (EvToolCall name as # rest) = (name, as) # toolCallsOf rest"
| "toolCallsOf (_ # rest) = toolCallsOf rest"

fun responseName :: "Part \<Rightarrow> string option" where
  "responseName (FunctionResponse name r) = Some name"
| "responseName _ = None"

section \<open>A scripted environment for the concrete runs\<close>

text \<open>
  The outside world is the number of submissions already made to the model: the
  \<open>n\<close>-th submission is answered by the \<open>n\<close>-th entry of \<open>script\<close>.  \<open>file\<close> is what
  reading \<open>token.json\<close> gives and \<open>busErr\<close> what every publish returns.  The contacts
  service answers; the other services cannot be reached.  A delivered message is
  written \<open>from:text\<close>.  Subscribing succeeds, and no response arrives while a caller
  waits for one.
\<close>

definition okCommon :: "CommonResponse option" where
  "okCommon = Some \<lparr>Status = ''OK'', Message = ''ok''\<rparr>"

definition textPayload :: "string \<Rightarrow> string \<Rightarrow> WhatsAppWebhookPayload" where
  "textPayload from body =
     \<lparr>Object = ''whatsapp_business_account'',
      Entry = [\<lparr>we_ID = ''12345'',
                we_Changes = [\<lparr>wch_Value =
                                 \<lparr>wv_MessagingProduct = ''whatsapp'',
                                  wv_DisplayPhoneNumberID = ''123456789'',
                                  wv_PhoneNumberID = ''987654321'',
                                  wv_Contacts = [],
                                  wv_Messages = [\<lparr>wm_From = from, wm_ID = ''wamid'',
                                                  wm_Timestamp = ''1678888888'',
                                                  wm_TextBody = body, wm_Type = ''text''\<rparr>]\<rparr>,
                               wch_Field = ''messages''\<rparr>]\<rparr>]\<rparr>"

definition scriptEnv ::
  "(string + GenerateContentResponse) list \<Rightarrow> (string + string) \<Rightarrow> string option \<Rightarrow> nat env" where
  "scriptEnv script file busErr =
     \<lparr>rpc_ListEvents = (\<lambda>req w. (Inl ''unavailable'', w)),
      rpc_CreateEvent = (\<lambda>req w. (Inl ''unavailable'', w)),
      rpc_SendEmail = (\<lambda>req w. (Inl ''unavailable'', w)),
      rpc_ListConnections = (\<lambda>req w. (Inr \<lparr>lcr_Common = okCommon, lcr_People = []\<rparr>, w)),
      rpc_CreateContact =
        (\<lambda>req w. (Inr \<lparr>ccr_Common = okCommon,
                        ccr_CreatedContact =
                          Some \<lparr>p_ResourceName = ''people/c1'', p_DisplayName = cc_DisplayName req,
                                p_Email = cc_Email req, p_PhoneNumber = cc_PhoneNumber req\<rparr>\<rparr>, w)),
      genai_StartChat = (\<lambda>w. (\<lparr>History = []\<rparr>, w)),
      genai_SendMessage =
        (\<lambda>cs parts w. (if w < length script then script ! w else Inl ''no answer'', cs, Suc w)),
      ioutil_ReadFile = (\<lambda>path w. (file, w)),
      json_UnmarshalToken =
        (\<lambda>b. Inr \<lparr>tok_AccessToken = b, tok_TokenType = ''Bearer'', tok_RefreshToken = b,
                   tok_ExpiryUnix = 0\<rparr>),
      json_Marshal = TextBody,
      json_MarshalPayload = (\<lambda>p. Inr ''payload''),
      json_UnmarshalPayload =
        (\<lambda>d. Inr (textPayload (takeWhile (\<lambda>ch. ch \<noteq> CHR '':'') d)
                                (drop 1 (dropWhile (\<lambda>ch. ch \<noteq> CHR '':'') d)))),
      json_UnmarshalOutgoing =
        (\<lambda>b. Inr \<lparr>MessagingProduct = ''whatsapp'', To = [], Type = ''text'', TextBody = b\<rparr>),
      nats_Publish = (\<lambda>subject b w. (busErr, w)),
      nats_Subscribe = (\<lambda>subject w. (Inr 1, w)),
      nats_Unsubscribe = (\<lambda>sub w. (None, w)),
      select_Wait = (\<lambda>sub timeout w. (None, w)),
      int32_overflow = (\<lambda>x. 0)\<rparr>"

definition modelSays :: "Part list \<Rightarrow> string + GenerateContentResponse" where
  "modelSays ps = Inr \<lparr>Candidates = [Some \<lparr>cand_Content = Some \<lparr>Parts = ps, Role = ''model''\<rparr>\<rparr>]\<rparr>"

definition state0 :: "nat state" where
  "state0 = \<lparr>userSessions = (\<lambda>u. None), heap = (\<lambda>a. emptySession), nextAddr = 0,
             chats = (\<lambda>c. \<lparr>History = []\<rparr>), nextChat = 0, world = 0, trace = []\<rparr>"

section \<open>Vocabulary of the statements\<close>

text \<open>The first text part of a response, when no tool invocation comes before it.\<close>

fun leadingText :: "Part list \<Rightarrow> string option" where
  "leadingText [] = None"
| "leadingText (Text txt # rest) = Some txt"
| "leadingText (FunctionCall name as # rest) = None"
| "leadingText (_ # rest) = leadingText rest"

text \<open>The requests sent to the external operations, in order.\<close>

fun rpcsOf :: "event list \<Rightarrow> rpc_request list" where
  "rpcsOf [] = []"
| "rpcsOf (EvRPC req # rest) = req # rpcsOf rest"
| "rpcsOf (_ # rest) = rpcsOf rest"

text \<open>
  The string supplied under key \<open>k\<close>, and \<open>d\<close> when the key is absent or holds a value
  that is not a string; likewise for a number converted to \<open>int32\<close>.
\<close>

definition stringArg :: "args \<Rightarrow> string \<Rightarrow> string \<Rightarrow> string" where
  "stringArg as k d = (case map_of as k of Some (GString v) \<Rightarrow> v | _ \<Rightarrow> d)"

definition int32Arg :: "'w env \<Rightarrow> args \<Rightarrow> string \<Rightarrow> 32 word \<Rightarrow> 32 word" where
  "int32Arg env as k d = (case map_of as k of Some (GFloat64 v) \<Rightarrow> toInt32 env v | _ \<Rightarrow> d)"

text \<open>The publish call that \<open>SendResponse\<close> makes for a message.\<close>

definition pub :: "'w env \<Rightarrow> string \<Rightarrow> string \<Rightarrow> event" where
  "pub env u m = EvPublish (natsResponseSubjectPrefix @ u) (json_Marshal env (outgoing u m))"

text \<open>
  The calls a turn makes, by phase: before the first submission (\<open>prelude\<close>), and after
  the tool loop (\<open>finShape\<close>: a reply when the turn returned, none when it panicked, each
  possibly after one resubmission).
\<close>

definition prelude :: "event list \<Rightarrow> bool" where
  "prelude pre = list_all (\<lambda>e. \<not> isModelCall e \<and> \<not> isToolEvent e \<and> \<not> isPublish e) pre"

definition finShape :: "'w env \<Rightarrow> string \<Rightarrow> panic option \<Rightarrow> event list \<Rightarrow> bool" where
  "finShape env u r fin =
     (if r = None then (\<exists>m. fin = [pub env u m]) \<or> (\<exists>b m. fin = [EvSendMessage b, pub env u m])
      else fin = [] \<or> (\<exists>b. fin = [EvSendMessage b]))"

definition turnShape :: "'w env \<Rightarrow> string \<Rightarrow> string \<Rightarrow> panic option \<Rightarrow> event list \<Rightarrow> bool" where
  "turnShape env u t r rest =
     (\<exists>tools fin. rest = EvSendMessage [Text t] # tools @ fin \<and> list_all isToolEvent tools \<and>
                  finShape env u r fin)"

text \<open>
  The invariant of the session store under interleaving: the mutex is held by exactly the
  goroutine between a \<open>Lock\<close> and its \<open>Unlock\<close>; a goroutine that has computed its session
  pointer holds the one the map stores for its user; and a goroutine about to insert
  sees no entry for its user.
\<close>

definition pcAt :: "'w sys \<Rightarrow> nat \<Rightarrow> pc" where
  "pcAt sy i = g_pc (goroutines sy ! i)"

definition userAt :: "'w sys \<Rightarrow> nat \<Rightarrow> string" where
  "userAt sy i = g_userID (goroutines sy ! i)"

definition storeInv :: "'w sys \<Rightarrow> bool" where
  "storeInv sy =
     ((\<forall>k. mutex sy = Some k \<longrightarrow> k < length (goroutines sy)) \<and>
      (\<forall>i < length (goroutines sy). holdsLock (pcAt sy i) = (mutex sy = Some i)) \<and>
      (\<forall>i < length (goroutines sy). \<forall>a. sessionOf (pcAt sy i) = Some a \<longrightarrow>
           userSessions (shared sy) (userAt sy i) = Some a) \<and>
      (\<forall>i < length (goroutines sy). pcAt sy i = AtInsert \<longrightarrow>
           userSessions (shared sy) (userAt sy i) = None))"

section \<open>Concrete inputs\<close>

definition userA :: string where "userA = ''5493815470353''"

definition envChat :: "nat env" where
  "envChat = scriptEnv [modelSays [Text ''Hola'']] (Inr ''tok'') None"

definition envBusDown :: "nat env" where
  "envBusDown = scriptEnv [modelSays [Text ''Hola'']] (Inr ''tok'') (Some ''nats: connection closed'')"

definition envNoToken :: "nat env" where
  "envNoToken = scriptEnv [modelSays [Text ''Hola'']] (Inl ''open token.json: no such file or directory'') None"

definition envTextThenCall :: "nat env" where
  "envTextThenCall = scriptEnv
     [modelSays [Text ''Claro, voy a crear el contacto.'',
                 FunctionCall ''create_contact'' [(''display_name'', GString ''Joe Doe'')]],
      modelSays [Text ''Contacto creado.'']]
     (Inr ''tok'') None"

definition envNoCandidates :: "nat env" where
  "envNoCandidates = scriptEnv [Inr \<lparr>Candidates = []\<rparr>] (Inr ''tok'') None"

definition envNoContent :: "nat env" where
  "envNoContent = scriptEnv [Inr \<lparr>Candidates = [Some \<lparr>cand_Content = None\<rparr>]\<rparr>] (Inr ''tok'') None"

definition twoTurns :: "action list" where
  "twoTurns =
     [Deliver ''549:hola'', Deliver ''549:que tal'',
      Step 0, Step 0, Step 0, Step 0,
      Step 1, Step 1, Step 1,
      Step 0, Step 1, Step 0, Step 1,
      Step 0, Step 0, Step 0,
      Step 1, Step 1, Step 1,
      Step 0, Step 1]"

definition oneInside :: "action list" where
  "oneInside = [Deliver ''549:hola'', Deliver ''549:que tal'', Step 0, Step 0]"

definition updating :: "action list" where
  "updating =
     [Deliver ''549:hola'', Deliver ''549:que tal'',
      Step 0, Step 0, Step 0, Step 0, Step 0, Step 0, Step 0]"


definition envSecondRound :: "nat env" where
  "envSecondRound = scriptEnv
     [modelSays [FunctionCall ''list_contacts'' []],
      modelSays [FunctionCall ''create_contact'' [(''display_name'', GString ''Joe Doe'')],
                 Text ''No tienes contactos.'']]
     (Inr ''tok'') None"

section \<open>A goroutine running alone\<close>

text \<open>
  The system with one goroutine, and the states it reaches when only that goroutine is
  scheduled.
\<close>

definition solo :: "string \<Rightarrow> string \<Rightarrow> pc \<Rightarrow> nat option \<Rightarrow> 'w state \<Rightarrow> 'w sys" where
  "solo u t p m s = \<lparr>mutex = m, goroutines = [\<lparr>g_userID = u, g_text = t, g_pc = p\<rparr>], shared = s\<rparr>"

definition reaches :: "'w env \<Rightarrow> 'w sys \<Rightarrow> 'w sys \<Rightarrow> bool" where
  "reaches env sy sy' = (\<exists>n. run env (replicate n (Step 0)) sy = Some sy')"

section \<open>The calls of one turn\<close>

text \<open>Every operation only appends to the list of calls; these lemmas say what.\<close>

lemma trace_logk [simp]: "trace (logk e s) = trace s @ [e]"
  by (simp add: logk_def)

lemma SendResponse_trace:
  "trace (SendResponse env u m s) =
     trace s @ [EvPublish (natsResponseSubjectPrefix @ u) (json_Marshal env (outgoing u m))]"
  by (simp add: SendResponse_def Let_def split: prod.splits option.splits)

lemma ExecuteToolCall_trace:
  "\<exists>evs. trace (snd (ExecuteToolCall env u tk n as s)) = trace s @ EvToolCall n as # evs
         \<and> (evs = [] \<or> (\<exists>req. evs = [EvRPC req]))"
  by (simp add: ExecuteToolCall_def Let_def split: prod.splits)

lemma chatSend_trace:
  "trace (snd (chatSend env c parts s)) = trace s @ [EvSendMessage parts]"
  by (simp add: chatSend_def Let_def split: prod.splits)

lemma toolCallsOf_append: "toolCallsOf (xs @ ys) = toolCallsOf xs @ toolCallsOf ys"
  by (induction xs rule: toolCallsOf.induct) simp_all

lemma toolLoop_leading_text:
  "leadingText parts = Some t \<Longrightarrow>
     toolLoop env u a parts False trs s = (LoopReturn, SendResponse env u t s)"
  by (induction parts rule: leadingText.induct) simp_all

lemma ExecuteToolCall_result:
  obtains p s' where "ExecuteToolCall env u tk n as s = (Panic p, s')"
  | e s' where "ExecuteToolCall env u tk n as s = (Return (Inl e), s')"
  | v s' where "ExecuteToolCall env u tk n as s = (Return (Inr v), s')"
proof (cases "ExecuteToolCall env u tk n as s")
  case (Pair r s')
  then show ?thesis
    by (cases r; cases "case r of Return x \<Rightarrow> x"; auto intro: that)
qed

lemma toolLoop_True:
  "toolLoop env u a parts True trs s = (r, s') \<Longrightarrow>
     r \<noteq> LoopReturn \<and>
     (\<exists>evs. trace s' = trace s @ evs \<and> list_all isToolEvent evs \<and>
        (\<forall>h' trs'. r = LoopDone h' trs' \<longrightarrow>
           h' \<and> toolCallsOf evs = invocations parts \<and>
           (\<exists>new. trs' = trs @ new \<and> map responseName new = map (Some \<circ> fst) (invocations parts))))"
proof (induction parts arbitrary: trs s)
  case Nil
  then show ?case by auto
next
  case (Cons part rest)
  show ?case
  proof (cases part)
    case (Text t)
    with Cons.prems have "toolLoop env u a rest True trs s = (r, s')" by simp
    from Cons.IH[OF this] show ?thesis using Text by simp
  next
    case (FunctionCall n as)
    obtain evs0 where e0: "trace (snd (ExecuteToolCall env u (us_OAuthTokens (heap s a)) n as s))
        = trace s @ EvToolCall n as # evs0" "evs0 = [] \<or> (\<exists>req. evs0 = [EvRPC req])"
      using ExecuteToolCall_trace by blast
    show ?thesis
    proof (rule ExecuteToolCall_result[of env u "us_OAuthTokens (heap s a)" n as s])
      fix p s1 assume x: "ExecuteToolCall env u (us_OAuthTokens (heap s a)) n as s = (Panic p, s1)"
      with Cons.prems FunctionCall have "r = LoopPanic p" "s' = s1" by simp_all
      with e0 x show ?thesis by auto
    next
      fix e s1 assume x: "ExecuteToolCall env u (us_OAuthTokens (heap s a)) n as s = (Return (Inl e), s1)"
      with Cons.prems FunctionCall
      have "toolLoop env u a rest True (trs @ [FunctionResponse n [(''error'', GString e)]]) s1 = (r, s')"
        by simp
      from Cons.IH[OF this] obtain evs where
        ih: "r \<noteq> LoopReturn" "trace s' = trace s1 @ evs" "list_all isToolEvent evs"
          "\<forall>h' trs'. r = LoopDone h' trs' \<longrightarrow>
             h' \<and> toolCallsOf evs = invocations rest \<and>
             (\<exists>new. trs' = (trs @ [FunctionResponse n [(''error'', GString e)]]) @ new \<and>
                 map responseName new = map (Some \<circ> fst) (invocations rest))"
        by blast
      from e0 x have t1: "trace s1 = trace s @ EvToolCall n as # evs0" by simp
      have "trace s' = trace s @ (EvToolCall n as # evs0 @ evs)" using ih(2) t1 by simp
      moreover have "list_all isToolEvent (EvToolCall n as # evs0 @ evs)" using ih(3) e0(2) by auto
      moreover have "toolCallsOf (EvToolCall n as # evs0 @ evs) = (n, as) # toolCallsOf evs"
        using e0(2) by (auto simp: toolCallsOf_append)
      ultimately show ?thesis using ih(1,4) FunctionCall
        by (intro conjI exI[of _ "EvToolCall n as # evs0 @ evs"]) auto
    next
      fix v s1 assume x: "ExecuteToolCall env u (us_OAuthTokens (heap s a)) n as s = (Return (Inr v), s1)"
      with Cons.prems FunctionCall
      have "toolLoop env u a rest True (trs @ [FunctionResponse n [(''result'', v)]]) s1 = (r, s')"
        by simp
      from Cons.IH[OF this] obtain evs where
        ih: "r \<noteq> LoopReturn" "trace s' = trace s1 @ evs" "list_all isToolEvent evs"
          "\<forall>h' trs'. r = LoopDone h' trs' \<longrightarrow>
             h' \<and> toolCallsOf evs = invocations rest \<and>
             (\<exists>new. trs' = (trs @ [FunctionResponse n [(''result'', v)]]) @ new \<and>
                 map responseName new = map (Some \<circ> fst) (invocations rest))"
        by blast
      from e0 x have t1: "trace s1 = trace s @ EvToolCall n as # evs0" by simp
      have "trace s' = trace s @ (EvToolCall n as # evs0 @ evs)" using ih(2) t1 by simp
      moreover have "list_all isToolEvent (EvToolCall n as # evs0 @ evs)" using ih(3) e0(2) by auto
      moreover have "toolCallsOf (EvToolCall n as # evs0 @ evs) = (n, as) # toolCallsOf evs"
        using e0(2) by (auto simp: toolCallsOf_append)
      ultimately show ?thesis using ih(1,4) FunctionCall
        by (intro conjI exI[of _ "EvToolCall n as # evs0 @ evs"]) auto
    qed
  next
    case (FunctionResponse n r0)
    with Cons.prems have "toolLoop env u a rest True trs s = (r, s')" by simp
    from Cons.IH[OF this] show ?thesis using FunctionResponse by simp
  next
    case (Blob b)
    with Cons.prems have "toolLoop env u a rest True trs s = (r, s')" by simp
    from Cons.IH[OF this] show ?thesis using Blob by simp
  qed
qed

lemma toolLoop_False:
  "leadingText parts = None \<Longrightarrow> toolLoop env u a parts False trs s = (r, s') \<Longrightarrow>
     r \<noteq> LoopReturn \<and>
     (\<exists>evs. trace s' = trace s @ evs \<and> list_all isToolEvent evs \<and>
        (\<forall>h' trs'. r = LoopDone h' trs' \<longrightarrow>
           h' = (invocations parts \<noteq> []) \<and> toolCallsOf evs = invocations parts \<and>
           (\<exists>new. trs' = trs @ new \<and> map responseName new = map (Some \<circ> fst) (invocations parts))))"
proof (induction parts rule: leadingText.induct)
  case (3 name as rest)
  from 3(2) have "toolLoop env u a (FunctionCall name as # rest) True trs s = (r, s')"
    by simp
  from toolLoop_True[OF this] show ?case by auto
qed auto

lemma SendResponse_pub: "trace (SendResponse env u m s) = trace s @ [pub env u m]"
  by (simp add: SendResponse_trace pub_def)

lemma finishTurn_trace:
  "finishTurn env u c h trs s = (r, s') \<Longrightarrow>
     \<exists>fin. trace s' = trace s @ fin \<and>
       (if h then (if r = None then (\<exists>m. fin = [EvSendMessage trs, pub env u m])
                   else fin = [EvSendMessage trs])
        else r = None \<and> fin = [pub env u fallbackMessage])"
  using chatSend_trace[of env c trs s]
  by (auto simp: finishTurn_def SendResponse_pub
      split: if_splits prod.splits sum.splits go_result.splits option.splits)

lemma submit_trace:
  assumes "submit env u t a c s = (r, s')"
  shows "\<exists>rest. trace s' = trace s @ rest \<and> turnShape env u t r rest"
proof -
  have "\<exists>tools fin. trace s' = trace s @ EvSendMessage [Text t] # tools @ fin \<and>
           list_all isToolEvent tools \<and>
           (if r = None then (\<exists>m. fin = [pub env u m]) \<or> (\<exists>b m. fin = [EvSendMessage b, pub env u m])
            else fin = [] \<or> (\<exists>b. fin = [EvSendMessage b]))"
proof (cases "chatSend env c [Text t] s")
  case (Pair res s1)
  have t1: "trace s1 = trace s @ [EvSendMessage [Text t]]"
    using chatSend_trace[of env c "[Text t]" s] Pair by simp
  show ?thesis
  proof (cases res)
    case (Inl err)
    with assms Pair have "r = None" "s' = SendResponse env u modelErrorMessage s1"
      by (simp_all add: submit_def)
    with t1 show ?thesis
      by - (rule exI[of _ "[]"], rule exI[of _ "[pub env u modelErrorMessage]"], auto simp: SendResponse_pub)
  next
    case (Inr resp)
    show ?thesis
    proof (cases "firstCandidateParts resp")
      case (Panic p)
      with assms Pair Inr have "r = Some p" "s' = s1" by (simp_all add: submit_def)
      with t1 show ?thesis by - (rule exI[of _ "[]"], rule exI[of _ "[]"], simp)
    next
      case (Return parts)
      obtain lr s2 where L: "toolLoop env u a parts False [] s1 = (lr, s2)" by fastforce
      show ?thesis
      proof (cases "leadingText parts")
        case (Some tx)
        have "toolLoop env u a parts False [] s1 = (LoopReturn, SendResponse env u tx s1)"
          using Some by (rule toolLoop_leading_text)
        with L have "lr = LoopReturn" "s2 = SendResponse env u tx s1" by simp_all
        with assms Pair Inr Return L have "r = None" "s' = SendResponse env u tx s1"
          by (simp_all add: submit_def)
        with t1 show ?thesis
          by - (rule exI[of _ "[]"], rule exI[of _ "[pub env u tx]"], auto simp: SendResponse_pub)
      next
        case None
        from toolLoop_False[OF None L] obtain evs where
          ev: "lr \<noteq> LoopReturn" "trace s2 = trace s1 @ evs" "list_all isToolEvent evs" by blast
        show ?thesis
        proof (cases lr)
          case LoopReturn
          with ev show ?thesis by simp
        next
          case (LoopPanic p)
          with assms Pair Inr Return L have "r = Some p" "s' = s2" by (simp_all add: submit_def)
          with t1 ev show ?thesis by - (rule exI[of _ evs], rule exI[of _ "[]"], simp)
        next
          case (LoopDone h trs)
          with assms Pair Inr Return L have "finishTurn env u c h trs s2 = (r, s')"
            by (simp add: submit_def)
          from finishTurn_trace[OF this] obtain fin where
            f: "trace s' = trace s2 @ fin"
              "if h then (if r = None then (\<exists>m. fin = [EvSendMessage trs, pub env u m])
                   else fin = [EvSendMessage trs])
               else r = None \<and> fin = [pub env u fallbackMessage]" by blast
          from f(1) t1 ev(2) have "trace s' = trace s @ EvSendMessage [Text t] # evs @ fin" by simp
          moreover from f(2) have "if r = None then (\<exists>m. fin = [pub env u m]) \<or> (\<exists>b m. fin = [EvSendMessage b, pub env u m])
            else fin = [] \<or> (\<exists>b. fin = [EvSendMessage b])"
            by (auto split: if_splits)
          ultimately show ?thesis using ev(3) by blast
        qed
      qed
    qed
  qed
qed
  then show ?thesis unfolding turnShape_def finShape_def by blast
qed

lemma GetOrCreate_trace: "trace (snd (GetOrCreateUserSession u s)) = trace s"
  by (simp add: GetOrCreateUserSession_def insertSession_def Let_def split: option.splits)

lemma startChat_trace:
  "trace (startChat env a s) = trace s \<or> trace (startChat env a s) = trace s @ [EvStartChat]"
  by (simp add: startChat_def Let_def split: prod.splits)

lemma startChat_tokens: "us_OAuthTokens (heap (startChat env a s) a) = us_OAuthTokens (heap s a)"
  by (simp add: startChat_def Let_def split: prod.splits)

lemma LoadAndPrepareTokens_trace:
  "trace (snd (LoadAndPrepareTokens env s)) = trace s @ [EvReadFile tokenCacheFile]"
  by (simp add: LoadAndPrepareTokens_def Let_def split: prod.splits sum.splits)

lemma loadCredentials_trace:
  "loadCredentials env u a s = (cr, s') \<Longrightarrow>
     (case cr of
        CredsPresent \<Rightarrow> trace s' = trace s
      | CredsLoaded tk \<Rightarrow> trace s' = trace s @ [EvReadFile tokenCacheFile]
      | CredsFailed \<Rightarrow> (\<exists>m. trace s' = trace s @ [EvReadFile tokenCacheFile, pub env u m]))"
  using LoadAndPrepareTokens_trace[of env s]
  by (auto simp: loadCredentials_def SendResponse_pub split: if_splits prod.splits sum.splits)

lemma Update_trace: "trace (UpdateUserSessionTokens u tk s) = trace s"
  by (simp add: UpdateUserSessionTokens_def split: option.splits)

lemma appendUser_trace: "trace (snd (appendUser t a s)) = trace s"
  by (simp add: appendUser_def split: option.splits)

lemma turnBody_trace:
  assumes "turnBody env u t a s = (r, s')"
  shows "\<exists>rest. trace s' = trace s @ rest \<and> ((r \<noteq> None \<and> rest = []) \<or> turnShape env u t r rest)"
proof (cases "appendUser t a s")
  case (Pair x s1)
  have t1: "trace s1 = trace s" using appendUser_trace[of t a s] Pair by simp
  show ?thesis
  proof (cases x)
    case (Inl p)
    with assms Pair t1 show ?thesis by (auto simp: turnBody_def)
  next
    case (Inr c)
    with assms Pair have "submit env u t a c s1 = (r, s')" by (simp add: turnBody_def)
    from submit_trace[OF this] t1 show ?thesis by auto
  qed
qed

lemma processMessage_trace:
  assumes "processMessage env u t s0 = (r, s')"
  shows "\<exists>pre rest. trace s' = trace s0 @ pre @ rest \<and> prelude pre \<and>
           ((r = None \<and> (\<exists>m. rest = [pub env u m])) \<or> (r \<noteq> None \<and> rest = []) \<or>
            turnShape env u t r rest)"
proof -
  obtain a ok s1 where G: "GetOrCreateUserSession u s0 = ((a, ok), s1)"
    by (metis prod.exhaust)
  have t1: "trace s1 = trace s0" using GetOrCreate_trace[of u s0] G by simp
  define s2 where "s2 = startChat env a s1"
  obtain p2 where t2: "trace s2 = trace s0 @ p2" "prelude p2"
    using startChat_trace[of env a s1] t1 unfolding s2_def prelude_def by fastforce
  obtain cr s3 where C: "loadCredentials env u a s2 = (cr, s3)" by fastforce
  note lc = loadCredentials_trace[OF C]
  show ?thesis
  proof (cases cr)
    case CredsPresent
    with lc have t3: "trace s3 = trace s0 @ p2" using t2 by simp
    from assms G C CredsPresent have "turnBody env u t a s3 = (r, s')"
      by (simp add: processMessage_def s2_def)
    from turnBody_trace[OF this] obtain rest where
      "trace s' = trace s3 @ rest" "(r \<noteq> None \<and> rest = []) \<or> turnShape env u t r rest" by blast
    with t3 t2(2) show ?thesis by - (rule exI[of _ p2], rule exI[of _ rest], simp)
  next
    case CredsFailed
    with lc obtain m where t3: "trace s3 = trace s0 @ (p2 @ [EvReadFile tokenCacheFile]) @ [pub env u m]"
      using t2 by auto
    from assms G C CredsFailed have "r = None" "s' = s3"
      by (simp_all add: processMessage_def s2_def)
    moreover have "prelude (p2 @ [EvReadFile tokenCacheFile])" using t2(2) by (simp add: prelude_def)
    ultimately show ?thesis using t3
      by - (rule exI[of _ "p2 @ [EvReadFile tokenCacheFile]"], rule exI[of _ "[pub env u m]"], blast)
  next
    case (CredsLoaded tk)
    with lc have t3: "trace (UpdateUserSessionTokens u (Some tk) s3) = trace s0 @ (p2 @ [EvReadFile tokenCacheFile])"
      using t2 by (simp add: Update_trace)
    have st: "prelude (p2 @ [EvReadFile tokenCacheFile])" using t2(2) by (simp add: prelude_def)
    from assms G C CredsLoaded have "turnBody env u t a (UpdateUserSessionTokens u (Some tk) s3) = (r, s')"
      by (simp add: processMessage_def s2_def)
    from turnBody_trace[OF this] obtain rest where
      "trace s' = trace (UpdateUserSessionTokens u (Some tk) s3) @ rest"
      "(r \<noteq> None \<and> rest = []) \<or> turnShape env u t r rest" by blast
    with t3 st show ?thesis
      by - (rule exI[of _ "p2 @ [EvReadFile tokenCacheFile]"], rule exI[of _ rest], simp)
  qed
qed

lemma afterModelCalls_skip:
  "list_all (\<lambda>e. \<not> isModelCall e) xs \<Longrightarrow>
     afterModelCalls (Suc n) (xs @ ys) = afterModelCalls (Suc n) ys"
  by (induction xs) simp_all

lemma tool_not_model: "list_all isToolEvent xs \<Longrightarrow> list_all (\<lambda>e. \<not> isModelCall e) xs"
  by (induction xs) (auto elim: isToolEvent.elims)

lemma prelude_not_model: "prelude xs \<Longrightarrow> list_all (\<lambda>e. \<not> isModelCall e) xs"
  by (induction xs) (auto simp: prelude_def)

lemma after2_shape:
  assumes "prelude pre" "turnShape env u t r rest"
  shows "filter (\<lambda>e. isModelCall e \<or> isToolEvent e) (afterModelCalls 2 (pre @ rest)) = []"
proof -
  from assms(2) obtain tools fin where
    r: "rest = EvSendMessage [Text t] # tools @ fin" "list_all isToolEvent tools" "finShape env u r fin"
    unfolding turnShape_def by blast
  have "afterModelCalls 2 (pre @ rest) = afterModelCalls (Suc (Suc 0)) rest"
    using afterModelCalls_skip[OF prelude_not_model[OF assms(1)], of "Suc 0" rest]
    by (simp add: numeral_2_eq_2)
  also have "\<dots> = afterModelCalls (Suc 0) (tools @ fin)" using r(1) by simp
  also have "\<dots> = afterModelCalls (Suc 0) fin"
    using afterModelCalls_skip[OF tool_not_model[OF r(2)]] by simp
  finally have "afterModelCalls 2 (pre @ rest) = afterModelCalls (Suc 0) fin" .
  moreover have "filter (\<lambda>e. isModelCall e \<or> isToolEvent e) (afterModelCalls (Suc 0) fin) = []"
    using r(3) by (auto simp: finShape_def pub_def split: if_splits)
  ultimately show ?thesis by simp
qed

lemma after2_short:
  assumes "prelude pre" "list_all (\<lambda>e. \<not> isModelCall e) rest"
  shows "afterModelCalls 2 (pre @ rest) = []"
proof -
  have "list_all (\<lambda>e. \<not> isModelCall e) (pre @ rest)"
    using prelude_not_model[OF assms(1)] assms(2) by simp
  from afterModelCalls_skip[OF this, of "Suc 0" "[]"] show ?thesis
    by (simp add: numeral_2_eq_2)
qed

lemma filter_publish_tools: "list_all isToolEvent xs \<Longrightarrow> filter isPublish xs = []"
  by (induction xs) (auto elim: isToolEvent.elims)

lemma filter_publish_prelude: "prelude xs \<Longrightarrow> filter isPublish xs = []"
  by (induction xs) (auto simp: prelude_def)

lemma stringOrZero_arg: "stringOrZero as k = stringArg as k []"
  by (simp add: stringOrZero_def assertString_def stringArg_def
      split: option.splits gvalue.splits)

lemma assertString_arg:
  "(case assertString as k of Some v \<Rightarrow> v | None \<Rightarrow> d) = stringArg as k d"
  by (simp add: assertString_def stringArg_def split: option.splits gvalue.splits)

lemma assertFloat64_arg:
  "(case assertFloat64 as k of Some v \<Rightarrow> toInt32 env v | None \<Rightarrow> d) = int32Arg env as k d"
  by (simp add: assertFloat64_def int32Arg_def split: option.splits gvalue.splits)

lemma notin_known:
  "toolName \<notin> set knownTools \<longleftrightarrow>
     toolName \<noteq> ''list_calendar_events'' \<and> toolName \<noteq> ''create_calendar_event'' \<and>
     toolName \<noteq> ''send_email'' \<and> toolName \<noteq> ''list_contacts'' \<and> toolName \<noteq> ''create_contact''"
  by (simp add: knownTools_def)

lemma ExecuteToolCall_unknown:
  assumes "toolName \<notin> set knownTools"
  shows "ExecuteToolCall env userID tokens toolName as s =
           (Return (Inl (''unknown tool: '' @ toolName)), logk (EvToolCall toolName as) s)"
  using assms unfolding notin_known ExecuteToolCall_def by (simp add: Let_def)

section \<open>The session store under interleaving\<close>

text \<open>Nothing outside \<open>insertSession\<close> changes the map \<open>userSessions\<close>.\<close>

lemma setPc_simps [simp]:
  "length (goroutines (setPc i p sy)) = length (goroutines sy)"
  "mutex (setPc i p sy) = mutex sy"
  "shared (setPc i p sy) = shared sy"
  by (simp_all add: setPc_def)

lemma pcAt_setPc [simp]:
  "i < length (goroutines sy) \<Longrightarrow> pcAt (setPc i p sy) j = (if j = i then p else pcAt sy j)"
  by (simp add: setPc_def pcAt_def nth_list_update)

lemma userAt_setPc [simp]:
  "i < length (goroutines sy) \<Longrightarrow> userAt (setPc i p sy) j = userAt sy j"
  by (simp add: setPc_def userAt_def nth_list_update)

lemma pcAt_upd [simp]:
  "pcAt (sy\<lparr>mutex := m\<rparr>) j = pcAt sy j" "pcAt (sy\<lparr>shared := s\<rparr>) j = pcAt sy j"
  "userAt (sy\<lparr>mutex := m\<rparr>) j = userAt sy j" "userAt (sy\<lparr>shared := s\<rparr>) j = userAt sy j"
  by (simp_all add: pcAt_def userAt_def)

lemma us_logk [simp]: "userSessions (logk e s) = userSessions s"
  by (simp add: logk_def)

lemma us_SendResponse [simp]: "userSessions (SendResponse env u m s) = userSessions s"
  by (simp add: SendResponse_def Let_def split: prod.splits option.splits)

lemma us_startChat [simp]: "userSessions (startChat env a s) = userSessions s"
  by (simp add: startChat_def Let_def split: prod.splits)

lemma us_Load [simp]: "userSessions (snd (LoadAndPrepareTokens env s)) = userSessions s"
  by (simp add: LoadAndPrepareTokens_def Let_def split: prod.splits sum.splits)

lemma us_loadCredentials [simp]: "userSessions (snd (loadCredentials env u a s)) = userSessions s"
proof (cases "LoadAndPrepareTokens env s")
  case (Pair r s')
  then have "userSessions s' = userSessions s" using us_Load[of env s] by simp
  with Pair show ?thesis by (auto simp: loadCredentials_def split: sum.splits)
qed

lemma us_Update [simp]: "userSessions (UpdateUserSessionTokens u tk s) = userSessions s"
  by (simp add: UpdateUserSessionTokens_def split: option.splits)

lemma us_appendUser [simp]: "userSessions (snd (appendUser t a s)) = userSessions s"
  by (simp add: appendUser_def split: option.splits)

lemma us_chatSend [simp]: "userSessions (snd (chatSend env c ps s)) = userSessions s"
  by (simp add: chatSend_def Let_def split: prod.splits)

lemma us_Execute [simp]: "userSessions (snd (ExecuteToolCall env u tk n as s)) = userSessions s"
  by (simp add: ExecuteToolCall_def Let_def split: prod.splits)

lemma us_toolLoop [simp]: "userSessions (snd (toolLoop env u a parts h trs s)) = userSessions s"
proof (induction parts arbitrary: h trs s)
  case Nil
  then show ?case by simp
next
  case (Cons part rest)
  show ?case
  proof (cases part)
    case (FunctionCall n as)
    obtain r s1 where E: "ExecuteToolCall env u (us_OAuthTokens (heap s a)) n as s = (r, s1)"
      by fastforce
    then have "userSessions s1 = userSessions s"
      using us_Execute[of env u "us_OAuthTokens (heap s a)" n as s] by simp
    then show ?thesis using FunctionCall Cons.IH E
      by (auto split: go_result.splits sum.splits)
  qed (simp_all add: Cons.IH)
qed

lemma us_finishTurn [simp]: "userSessions (snd (finishTurn env u c h trs s)) = userSessions s"
proof (cases "chatSend env c trs s")
  case (Pair r s1)
  then have "userSessions s1 = userSessions s" using us_chatSend[of env c trs s] by simp
  with Pair show ?thesis
    by (auto simp: finishTurn_def split: sum.splits go_result.splits option.splits)
qed

lemma us_submit [simp]: "userSessions (snd (submit env u t a c s)) = userSessions s"
proof -
  obtain res s1 where C: "chatSend env c [Text t] s = (res, s1)" by fastforce
  then have u1: "userSessions s1 = userSessions s" using us_chatSend[of env c "[Text t]" s] by simp
  show ?thesis
  proof (cases res)
    case (Inl e)
    with C u1 show ?thesis by (simp add: submit_def)
  next
    case (Inr resp)
    show ?thesis
    proof (cases "firstCandidateParts resp")
      case (Panic p)
      with C Inr u1 show ?thesis by (simp add: submit_def)
    next
      case (Return parts)
      obtain lr s2 where L: "toolLoop env u a parts False [] s1 = (lr, s2)" by fastforce
      then have u2: "userSessions s2 = userSessions s"
        using us_toolLoop[of env u a parts False "[]" s1] u1 by simp
      have "userSessions (snd (finishTurn env u c h trs s2)) = userSessions s" for h trs
        using u2 by simp
      then show ?thesis using C Inr Return L u2
        by (cases lr) (simp_all add: submit_def)
    qed
  qed
qed

lemma us_insert:
  "insertSession u s = (a, s') \<Longrightarrow> userSessions s' = (userSessions s)(u \<mapsto> a)"
  by (auto simp: insertSession_def Let_def)

lemma spawn_simps [simp]:
  "length (goroutines (spawn u t sy)) = Suc (length (goroutines sy))"
  "mutex (spawn u t sy) = mutex sy"
  "shared (spawn u t sy) = shared sy"
  by (simp_all add: spawn_def)

lemma pcAt_spawn [simp]:
  "j < length (goroutines sy) \<Longrightarrow> pcAt (spawn u t sy) j = pcAt sy j"
  "pcAt (spawn u t sy) (length (goroutines sy)) = AtLock"
  by (simp_all add: spawn_def pcAt_def nth_append)

lemma userAt_spawn [simp]:
  "j < length (goroutines sy) \<Longrightarrow> userAt (spawn u t sy) j = userAt sy j"
  by (simp add: spawn_def userAt_def nth_append)

lemma storeInvI:
  assumes "\<And>k. mutex sy = Some k \<Longrightarrow> k < length (goroutines sy)"
    and "\<And>i. i < length (goroutines sy) \<Longrightarrow> holdsLock (pcAt sy i) = (mutex sy = Some i)"
    and "\<And>i a. i < length (goroutines sy) \<Longrightarrow> sessionOf (pcAt sy i) = Some a \<Longrightarrow>
           userSessions (shared sy) (userAt sy i) = Some a"
    and "\<And>i. i < length (goroutines sy) \<Longrightarrow> pcAt sy i = AtInsert \<Longrightarrow>
           userSessions (shared sy) (userAt sy i) = None"
  shows "storeInv sy"
  using assms unfolding storeInv_def by blast

lemma storeInvD:
  assumes "storeInv sy"
  shows "mutex sy = Some k \<Longrightarrow> k < length (goroutines sy)"
    and "i < length (goroutines sy) \<Longrightarrow> holdsLock (pcAt sy i) = (mutex sy = Some i)"
    and "i < length (goroutines sy) \<Longrightarrow> sessionOf (pcAt sy i) = Some a \<Longrightarrow>
           userSessions (shared sy) (userAt sy i) = Some a"
    and "i < length (goroutines sy) \<Longrightarrow> pcAt sy i = AtInsert \<Longrightarrow>
           userSessions (shared sy) (userAt sy i) = None"
  using assms unfolding storeInv_def by blast+

lemma storeInv_spawn:
  assumes "storeInv sy"
  shows "storeInv (spawn u t sy)"
proof (rule storeInvI)
  fix k assume "mutex (spawn u t sy) = Some k"
  then show "k < length (goroutines (spawn u t sy))"
    using storeInvD(1)[OF assms, of k] by simp
next
  fix i assume i: "i < length (goroutines (spawn u t sy))"
  show "holdsLock (pcAt (spawn u t sy) i) = (mutex (spawn u t sy) = Some i)"
  proof (cases "i < length (goroutines sy)")
    case True
    then show ?thesis using storeInvD(2)[OF assms True] by simp
  next
    case False
    with i have e: "i = length (goroutines sy)" by simp
    have "mutex sy \<noteq> Some (length (goroutines sy))"
      using storeInvD(1)[OF assms, of "length (goroutines sy)"] by auto
    with e show ?thesis by simp
  qed
next
  fix i a assume i: "i < length (goroutines (spawn u t sy))"
    and s: "sessionOf (pcAt (spawn u t sy) i) = Some a"
  show "userSessions (shared (spawn u t sy)) (userAt (spawn u t sy) i) = Some a"
  proof (cases "i < length (goroutines sy)")
    case True
    then show ?thesis using storeInvD(3)[OF assms True, of a] s by simp
  next
    case False
    with i have "i = length (goroutines sy)" by simp
    with s show ?thesis by simp
  qed
next
  fix i assume i: "i < length (goroutines (spawn u t sy))"
    and s: "pcAt (spawn u t sy) i = AtInsert"
  show "userSessions (shared (spawn u t sy)) (userAt (spawn u t sy) i) = None"
  proof (cases "i < length (goroutines sy)")
    case True
    then show ?thesis using storeInvD(4)[OF assms True] s by simp
  next
    case False
    with i have "i = length (goroutines sy)" by simp
    with s show ?thesis by simp
  qed
qed

lemma storeInv_onIncoming: "storeInv sy \<Longrightarrow> storeInv (onIncoming env d sy)"
  by (auto simp: onIncoming_def storeInv_spawn split: sum.splits list.splits)

lemma storeInv_init: "storeInv (initSys s)"
  by (simp add: storeInv_def initSys_def)

lemma len_upd [simp]:
  "length (goroutines (sy\<lparr>mutex := m\<rparr>)) = length (goroutines sy)"
  "length (goroutines (sy\<lparr>shared := s\<rparr>)) = length (goroutines sy)"
  by simp_all

lemma storeInv_move:
  assumes inv: "storeInv sy" and i: "i < length (goroutines sy)"
    and len: "length (goroutines sy') = length (goroutines sy)"
    and pcs: "\<And>j. j < length (goroutines sy) \<Longrightarrow> pcAt sy' j = (if j = i then p else pcAt sy j)"
    and users: "\<And>j. j < length (goroutines sy) \<Longrightarrow> userAt sy' j = userAt sy j"
    and c1: "\<And>k. mutex sy' = Some k \<Longrightarrow> k < length (goroutines sy)"
    and c2: "holdsLock p = (mutex sy' = Some i)"
    and c3: "\<And>j. j < length (goroutines sy) \<Longrightarrow> j \<noteq> i \<Longrightarrow>
               holdsLock (pcAt sy j) = (mutex sy' = Some j)"
    and c4: "\<And>a. sessionOf p = Some a \<Longrightarrow> userSessions (shared sy') (userAt sy i) = Some a"
    and c5: "\<And>j a. j < length (goroutines sy) \<Longrightarrow> j \<noteq> i \<Longrightarrow> sessionOf (pcAt sy j) = Some a \<Longrightarrow>
               userSessions (shared sy') (userAt sy j) = Some a"
    and c6: "p = AtInsert \<Longrightarrow> userSessions (shared sy') (userAt sy i) = None"
    and c7: "\<And>j. j < length (goroutines sy) \<Longrightarrow> j \<noteq> i \<Longrightarrow> pcAt sy j = AtInsert \<Longrightarrow>
               userSessions (shared sy') (userAt sy j) = None"
  shows "storeInv sy'"
proof (rule storeInvI)
  fix k assume "mutex sy' = Some k"
  then show "k < length (goroutines sy')" using c1 len by simp
next
  fix j assume "j < length (goroutines sy')"
  then have j: "j < length (goroutines sy)" using len by simp
  show "holdsLock (pcAt sy' j) = (mutex sy' = Some j)"
    using pcs[OF j] c2 c3[OF j] by (cases "j = i") simp_all
next
  fix j a assume "j < length (goroutines sy')" and s: "sessionOf (pcAt sy' j) = Some a"
  then have j: "j < length (goroutines sy)" using len by simp
  show "userSessions (shared sy') (userAt sy' j) = Some a"
    using pcs[OF j] users[OF j] s c4[of a] c5[OF j, of a] by (cases "j = i") simp_all
next
  fix j assume "j < length (goroutines sy')" and s: "pcAt sy' j = AtInsert"
  then have j: "j < length (goroutines sy)" using len by simp
  show "userSessions (shared sy') (userAt sy' j) = None"
    using pcs[OF j] users[OF j] s c6 c7[OF j] by (cases "j = i") simp_all
qed

lemma storeInv_turn:
  assumes inv: "storeInv sy" and i: "i < length (goroutines sy)"
    and before: "sessionOf (pcAt sy i) = Some a"
    and after: "sessionOf p = Some a \<or> sessionOf p = None" "holdsLock p = holdsLock (pcAt sy i)"
      "p \<noteq> AtInsert"
    and same: "userSessions s' = userSessions (shared sy)"
  shows "storeInv (setPc i p (sy\<lparr>shared := s'\<rparr>))"
proof (rule storeInv_move[OF inv i, where p = p])
  note D = storeInvD[OF inv]
  show "length (goroutines (setPc i p (sy\<lparr>shared := s'\<rparr>))) = length (goroutines sy)" by simp
  show "\<And>j. j < length (goroutines sy) \<Longrightarrow>
          pcAt (setPc i p (sy\<lparr>shared := s'\<rparr>)) j = (if j = i then p else pcAt sy j)"
    using i by simp
  show "\<And>j. j < length (goroutines sy) \<Longrightarrow> userAt (setPc i p (sy\<lparr>shared := s'\<rparr>)) j = userAt sy j"
    using i by simp
  show "\<And>k. mutex (setPc i p (sy\<lparr>shared := s'\<rparr>)) = Some k \<Longrightarrow> k < length (goroutines sy)"
    using D(1) by simp
  show "holdsLock p = (mutex (setPc i p (sy\<lparr>shared := s'\<rparr>)) = Some i)"
    using D(2)[OF i] after(2) by simp
  show "\<And>j. j < length (goroutines sy) \<Longrightarrow> j \<noteq> i \<Longrightarrow>
          holdsLock (pcAt sy j) = (mutex (setPc i p (sy\<lparr>shared := s'\<rparr>)) = Some j)"
    using D(2) by simp
  show "\<And>b. sessionOf p = Some b \<Longrightarrow>
          userSessions (shared (setPc i p (sy\<lparr>shared := s'\<rparr>))) (userAt sy i) = Some b"
    using D(3)[OF i before] after(1) same by auto
  show "\<And>j b. j < length (goroutines sy) \<Longrightarrow> j \<noteq> i \<Longrightarrow> sessionOf (pcAt sy j) = Some b \<Longrightarrow>
          userSessions (shared (setPc i p (sy\<lparr>shared := s'\<rparr>))) (userAt sy j) = Some b"
    using D(3) same by simp
  show "p = AtInsert \<Longrightarrow> userSessions (shared (setPc i p (sy\<lparr>shared := s'\<rparr>))) (userAt sy i) = None"
    using after(3) by simp
  show "\<And>j. j < length (goroutines sy) \<Longrightarrow> j \<noteq> i \<Longrightarrow> pcAt sy j = AtInsert \<Longrightarrow>
          userSessions (shared (setPc i p (sy\<lparr>shared := s'\<rparr>))) (userAt sy j) = None"
    using D(4) same by simp
qed

lemma storeInv_step:
  assumes inv: "storeInv sy" and st: "step env i sy = Some sy'"
  shows "storeInv sy'"
proof -
  from st have i: "i < length (goroutines sy)" by (auto simp: step_def split: if_splits)
  note D = storeInvD[OF inv]
  have gp: "g_pc (goroutines sy ! i) = pcAt sy i" by (simp add: pcAt_def)
  have gu: "g_userID (goroutines sy ! i) = userAt sy i" by (simp add: userAt_def)
  show ?thesis
  proof (cases "pcAt sy i")
    case AtLock
    with st i gp have free: "mutex sy = None" and sy': "sy' = setPc i AtLookup (sy\<lparr>mutex := Some i\<rparr>)"
      by (auto simp: step_def Let_def split: if_splits)
    have nocrit: "\<And>j. j < length (goroutines sy) \<Longrightarrow> \<not> holdsLock (pcAt sy j)"
      using D(2) free by simp
    show ?thesis
    proof (rule storeInv_move[OF inv i, where p = AtLookup])
      show "\<And>j a. j < length (goroutines sy) \<Longrightarrow> j \<noteq> i \<Longrightarrow> sessionOf (pcAt sy j) = Some a \<Longrightarrow>
          userSessions (shared sy') (userAt sy j) = Some a" using D(3) sy' by simp
      show "\<And>j. j < length (goroutines sy) \<Longrightarrow> j \<noteq> i \<Longrightarrow> pcAt sy j = AtInsert \<Longrightarrow>
          userSessions (shared sy') (userAt sy j) = None" using D(4) sy' by simp
      show "\<And>j. j < length (goroutines sy) \<Longrightarrow> j \<noteq> i \<Longrightarrow>
               holdsLock (pcAt sy j) = (mutex sy' = Some j)" using nocrit sy' by auto
    qed (use i sy' in simp_all)
  next
    case AtLookup
    then have held: "mutex sy = Some i" using D(2)[OF i] by simp
    show ?thesis
    proof (cases "userSessions (shared sy) (userAt sy i)")
      case None
      with st i gp gu AtLookup have sy': "sy' = setPc i AtInsert sy"
        by (simp add: step_def Let_def)
      show ?thesis
      proof (rule storeInv_move[OF inv i, where p = AtInsert])
        show "\<And>j a. j < length (goroutines sy) \<Longrightarrow> j \<noteq> i \<Longrightarrow> sessionOf (pcAt sy j) = Some a \<Longrightarrow>
          userSessions (shared sy') (userAt sy j) = Some a" using D(3) sy' by simp
        show "\<And>j. j < length (goroutines sy) \<Longrightarrow> j \<noteq> i \<Longrightarrow> pcAt sy j = AtInsert \<Longrightarrow>
          userSessions (shared sy') (userAt sy j) = None" using D(4) sy' by simp
        show "\<And>j. j < length (goroutines sy) \<Longrightarrow> j \<noteq> i \<Longrightarrow>
               holdsLock (pcAt sy j) = (mutex sy' = Some j)" using D(2) sy' by simp
        show "\<And>k. mutex sy' = Some k \<Longrightarrow> k < length (goroutines sy)" using D(1) sy' by simp
      qed (use i sy' held None in simp_all)
    next
      case (Some a)
      with st i gp gu AtLookup have sy': "sy' = setPc i (AtUnlock a True) sy"
        by (simp add: step_def Let_def)
      show ?thesis
      proof (rule storeInv_move[OF inv i, where p = "AtUnlock a True"])
        show "\<And>j a. j < length (goroutines sy) \<Longrightarrow> j \<noteq> i \<Longrightarrow> sessionOf (pcAt sy j) = Some a \<Longrightarrow>
          userSessions (shared sy') (userAt sy j) = Some a" using D(3) sy' by simp
        show "\<And>j. j < length (goroutines sy) \<Longrightarrow> j \<noteq> i \<Longrightarrow> pcAt sy j = AtInsert \<Longrightarrow>
          userSessions (shared sy') (userAt sy j) = None" using D(4) sy' by simp
        show "\<And>j. j < length (goroutines sy) \<Longrightarrow> j \<noteq> i \<Longrightarrow>
               holdsLock (pcAt sy j) = (mutex sy' = Some j)" using D(2) sy' by simp
        show "\<And>k. mutex sy' = Some k \<Longrightarrow> k < length (goroutines sy)" using D(1) sy' by simp
      qed (use i sy' held Some in simp_all)
    qed
  next
    case AtInsert
    then have held: "mutex sy = Some i" using D(2)[OF i] by simp
    have none: "userSessions (shared sy) (userAt sy i) = None" using D(4)[OF i AtInsert] .
    obtain a s' where ins: "insertSession (userAt sy i) (shared sy) = (a, s')" by fastforce
    with st i gp gu AtInsert have sy': "sy' = setPc i (AtUnlock a False) (sy\<lparr>shared := s'\<rparr>)"
      by (simp add: step_def Let_def)
    have us': "userSessions s' = (userSessions (shared sy))(userAt sy i \<mapsto> a)"
      using us_insert[OF ins] .
    show ?thesis
    proof (rule storeInv_move[OF inv i, where p = "AtUnlock a False"])
      show "\<And>j b. j < length (goroutines sy) \<Longrightarrow> j \<noteq> i \<Longrightarrow> sessionOf (pcAt sy j) = Some b \<Longrightarrow>
          userSessions (shared sy') (userAt sy j) = Some b"
      proof -
        fix j b assume j: "j < length (goroutines sy)" and sj: "sessionOf (pcAt sy j) = Some b"
        from D(3)[OF j sj] have old: "userSessions (shared sy) (userAt sy j) = Some b" .
        with none have "userAt sy j \<noteq> userAt sy i" by auto
        with old show "userSessions (shared sy') (userAt sy j) = Some b" using sy' us' by simp
      qed
      show "\<And>j. j < length (goroutines sy) \<Longrightarrow> j \<noteq> i \<Longrightarrow> pcAt sy j = AtInsert \<Longrightarrow>
          userSessions (shared sy') (userAt sy j) = None"
      proof -
        fix j assume j: "j < length (goroutines sy)" "j \<noteq> i" and pj: "pcAt sy j = AtInsert"
        from D(2)[OF j(1)] pj have "mutex sy = Some j" by simp
        with held j(2) show "userSessions (shared sy') (userAt sy j) = None" by simp
      qed
      show "\<And>j. j < length (goroutines sy) \<Longrightarrow> j \<noteq> i \<Longrightarrow>
               holdsLock (pcAt sy j) = (mutex sy' = Some j)" using D(2) sy' by simp
      show "\<And>k. mutex sy' = Some k \<Longrightarrow> k < length (goroutines sy)" using D(1) sy' by simp
    qed (use i sy' held us' in simp_all)
  next
    case (AtUnlock a ok)
    then have held: "mutex sy = Some i" using D(2)[OF i] by simp
    from st i gp AtUnlock have sy': "sy' = setPc i (AtStartChat a) (sy\<lparr>mutex := None\<rparr>)"
      by (simp add: step_def Let_def)
    show ?thesis
    proof (rule storeInv_move[OF inv i, where p = "AtStartChat a"])
      show "\<And>j b. j < length (goroutines sy) \<Longrightarrow> j \<noteq> i \<Longrightarrow> sessionOf (pcAt sy j) = Some b \<Longrightarrow>
          userSessions (shared sy') (userAt sy j) = Some b" using D(3) sy' by simp
      show "\<And>j. j < length (goroutines sy) \<Longrightarrow> j \<noteq> i \<Longrightarrow> pcAt sy j = AtInsert \<Longrightarrow>
          userSessions (shared sy') (userAt sy j) = None" using D(4) sy' by simp
      show "\<And>j. j < length (goroutines sy) \<Longrightarrow> j \<noteq> i \<Longrightarrow>
               holdsLock (pcAt sy j) = (mutex sy' = Some j)" using D(2) sy' held by simp
      show "\<And>b. sessionOf (AtStartChat a) = Some b \<Longrightarrow> userSessions (shared sy') (userAt sy i) = Some b"
        using D(3)[OF i, of a] AtUnlock sy' by simp
    qed (use i sy' in simp_all)
  next
    case (AtStartChat a)
    with st i gp have sy': "sy' = setPc i (AtCreds a) (sy\<lparr>shared := startChat env a (shared sy)\<rparr>)"
      by (simp add: step_def Let_def)
    show ?thesis unfolding sy'
      by (rule storeInv_turn[OF inv i, where a = a]) (simp_all add: AtStartChat)
  next
    case (AtCreds a)
    obtain cr s' where C: "loadCredentials env (userAt sy i) a (shared sy) = (cr, s')" by fastforce
    then have same: "userSessions s' = userSessions (shared sy)"
      using us_loadCredentials[of env "userAt sy i" a "shared sy"] by simp
    show ?thesis
    proof (cases cr)
      case CredsPresent
      with st i gp gu AtCreds C have sy': "sy' = setPc i (AtAppend a) (sy\<lparr>shared := s'\<rparr>)"
        by (simp add: step_def Let_def)
      show ?thesis unfolding sy'
        by (rule storeInv_turn[OF inv i, where a = a]) (simp_all add: AtCreds same)
    next
      case CredsFailed
      with st i gp gu AtCreds C have sy': "sy' = setPc i (Done None) (sy\<lparr>shared := s'\<rparr>)"
        by (simp add: step_def Let_def)
      show ?thesis unfolding sy'
        by (rule storeInv_turn[OF inv i, where a = a]) (simp_all add: AtCreds same)
    next
      case (CredsLoaded tk)
      with st i gp gu AtCreds C have sy': "sy' = setPc i (AtUpdate a tk) (sy\<lparr>shared := s'\<rparr>)"
        by (simp add: step_def Let_def)
      show ?thesis unfolding sy'
        by (rule storeInv_turn[OF inv i, where a = a]) (simp_all add: AtCreds same)
    qed
  next
    case (AtUpdate a tk)
    with st i gp have free: "mutex sy = None"
      and sy': "sy' = setPc i (AtUpdateBody a tk) (sy\<lparr>mutex := Some i\<rparr>)"
      by (auto simp: step_def Let_def split: if_splits)
    have nocrit: "\<And>j. j < length (goroutines sy) \<Longrightarrow> \<not> holdsLock (pcAt sy j)"
      using D(2) free by simp
    show ?thesis
    proof (rule storeInv_move[OF inv i, where p = "AtUpdateBody a tk"])
      show "\<And>j b. j < length (goroutines sy) \<Longrightarrow> j \<noteq> i \<Longrightarrow> sessionOf (pcAt sy j) = Some b \<Longrightarrow>
          userSessions (shared sy') (userAt sy j) = Some b" using D(3) sy' by simp
      show "\<And>j. j < length (goroutines sy) \<Longrightarrow> j \<noteq> i \<Longrightarrow> pcAt sy j = AtInsert \<Longrightarrow>
          userSessions (shared sy') (userAt sy j) = None" using D(4) sy' by simp
      show "\<And>j. j < length (goroutines sy) \<Longrightarrow> j \<noteq> i \<Longrightarrow>
               holdsLock (pcAt sy j) = (mutex sy' = Some j)" using nocrit sy' by auto
      show "\<And>b. sessionOf (AtUpdateBody a tk) = Some b \<Longrightarrow>
               userSessions (shared sy') (userAt sy i) = Some b"
        using D(3)[OF i, of a] AtUpdate sy' by simp
    qed (use i sy' in simp_all)
  next
    case (AtUpdateBody a tk)
    with st i gp gu have sy': "sy' = setPc i (AtUpdateUnlock a)
        (sy\<lparr>shared := UpdateUserSessionTokens (userAt sy i) (Some tk) (shared sy)\<rparr>)"
      by (simp add: step_def Let_def)
    show ?thesis unfolding sy'
      by (rule storeInv_turn[OF inv i, where a = a]) (simp_all add: AtUpdateBody)
  next
    case (AtUpdateUnlock a)
    then have held: "mutex sy = Some i" using D(2)[OF i] by simp
    from st i gp AtUpdateUnlock have sy': "sy' = setPc i (AtAppend a) (sy\<lparr>mutex := None\<rparr>)"
      by (simp add: step_def Let_def)
    show ?thesis
    proof (rule storeInv_move[OF inv i, where p = "AtAppend a"])
      show "\<And>j b. j < length (goroutines sy) \<Longrightarrow> j \<noteq> i \<Longrightarrow> sessionOf (pcAt sy j) = Some b \<Longrightarrow>
          userSessions (shared sy') (userAt sy j) = Some b" using D(3) sy' by simp
      show "\<And>j. j < length (goroutines sy) \<Longrightarrow> j \<noteq> i \<Longrightarrow> pcAt sy j = AtInsert \<Longrightarrow>
          userSessions (shared sy') (userAt sy j) = None" using D(4) sy' by simp
      show "\<And>j. j < length (goroutines sy) \<Longrightarrow> j \<noteq> i \<Longrightarrow>
               holdsLock (pcAt sy j) = (mutex sy' = Some j)" using D(2) sy' held by simp
      show "\<And>b. sessionOf (AtAppend a) = Some b \<Longrightarrow> userSessions (shared sy') (userAt sy i) = Some b"
        using D(3)[OF i, of a] AtUpdateUnlock sy' by simp
    qed (use i sy' in simp_all)
  next
    case (AtAppend a)
    obtain x s' where A: "appendUser (g_text (goroutines sy ! i)) a (shared sy) = (x, s')" by fastforce
    then have same: "userSessions s' = userSessions (shared sy)"
      using us_appendUser[of "g_text (goroutines sy ! i)" a "shared sy"] by simp
    show ?thesis
    proof (cases x)
      case (Inl p)
      with st i gp AtAppend A have sy': "sy' = setPc i (Done (Some p)) (sy\<lparr>shared := s'\<rparr>)"
        by (simp add: step_def Let_def)
      show ?thesis unfolding sy'
        by (rule storeInv_turn[OF inv i, where a = a]) (simp_all add: AtAppend same)
    next
      case (Inr c)
      with st i gp AtAppend A have sy': "sy' = setPc i (AtSubmit a c) (sy\<lparr>shared := s'\<rparr>)"
        by (simp add: step_def Let_def)
      show ?thesis unfolding sy'
        by (rule storeInv_turn[OF inv i, where a = a]) (simp_all add: AtAppend same)
    qed
  next
    case (AtSubmit a c)
    obtain r s' where S: "submit env (userAt sy i) (g_text (goroutines sy ! i)) a c (shared sy) = (r, s')"
      by fastforce
    then have same: "userSessions s' = userSessions (shared sy)"
      using us_submit[of env "userAt sy i" "g_text (goroutines sy ! i)" a c "shared sy"] by simp
    from st i gp gu AtSubmit S have sy': "sy' = setPc i (Done r) (sy\<lparr>shared := s'\<rparr>)"
      by (simp add: step_def Let_def)
    show ?thesis unfolding sy'
      by (rule storeInv_turn[OF inv i, where a = a]) (simp_all add: AtSubmit same)
  next
    case (Done r)
    with st i gp show ?thesis by (simp add: step_def Let_def)
  qed
qed

lemma storeInv_run: "storeInv sy \<Longrightarrow> run env acts sy = Some sy' \<Longrightarrow> storeInv sy'"
proof (induction acts arbitrary: sy)
  case Nil
  then show ?case by simp
next
  case (Cons act acts)
  from Cons.prems(2) obtain sy1 where e: "exec env act sy = Some sy1" and r: "run env acts sy1 = Some sy'"
    by (auto split: option.splits)
  have "storeInv sy1"
    using e Cons.prems(1) by (cases act) (auto simp: exec_def storeInv_onIncoming storeInv_step)
  from Cons.IH[OF this r] show ?case .
qed

lemma reachable_storeInv: "run env acts (initSys s0) = Some sy \<Longrightarrow> storeInv sy"
  using storeInv_run[OF storeInv_init] .

lemma critical_enabled:
  "i < length (goroutines sy) \<Longrightarrow> inCritical (g_pc (goroutines sy ! i)) \<Longrightarrow> step env i sy \<noteq> None"
  by (cases "g_pc (goroutines sy ! i)")
     (auto simp: step_def Let_def split: option.splits prod.splits)

lemma critical_holdsLock: "inCritical p \<Longrightarrow> holdsLock p"
  by (cases p) simp_all

lemma GetOrCreate_entry:
  "userSessions (snd (GetOrCreateUserSession U s)) U = Some (fst (fst (GetOrCreateUserSession U s)))"
  by (simp add: GetOrCreateUserSession_def insertSession_def Let_def split: option.splits)

lemma onIncoming_spawns:
  "json_UnmarshalPayload env d = Inr p \<Longrightarrow> Entry p = e # es \<Longrightarrow> we_Changes e = ch # chs \<Longrightarrow>
   wv_Messages (wch_Value ch) = m # ms \<Longrightarrow> wm_From m \<noteq> [] \<Longrightarrow> wm_TextBody m \<noteq> [] \<Longrightarrow>
   onIncoming env d sy = spawn (wm_From m) (wm_TextBody m) sy"
  by (simp add: onIncoming_def)

text \<open>
  The steps of a goroutine compose to \<open>processMessage\<close>: scheduled alone from its start,
  it ends with the result and in the state that \<open>processMessage\<close> computes.
\<close>

lemma spawn_init: "spawn u t (initSys s) = solo u t AtLock None s"
  by (simp add: spawn_def initSys_def solo_def)

lemma step_solo:
  "step env 0 (solo u t AtLock None s) = Some (solo u t AtLookup (Some 0) s)"
  "userSessions s u = Some a \<Longrightarrow> step env 0 (solo u t AtLookup m s) = Some (solo u t (AtUnlock a True) m s)"
  "userSessions s u = None \<Longrightarrow> step env 0 (solo u t AtLookup m s) = Some (solo u t AtInsert m s)"
  "step env 0 (solo u t AtInsert m s) =
     Some (solo u t (AtUnlock (fst (insertSession u s)) False) m (snd (insertSession u s)))"
  "step env 0 (solo u t (AtUnlock a ok) m s) = Some (solo u t (AtStartChat a) None s)"
  "step env 0 (solo u t (AtStartChat a) m s) = Some (solo u t (AtCreds a) m (startChat env a s))"
  "loadCredentials env u a s = (CredsPresent, s') \<Longrightarrow>
     step env 0 (solo u t (AtCreds a) m s) = Some (solo u t (AtAppend a) m s')"
  "loadCredentials env u a s = (CredsFailed, s') \<Longrightarrow>
     step env 0 (solo u t (AtCreds a) m s) = Some (solo u t (Done None) m s')"
  "loadCredentials env u a s = (CredsLoaded tk, s') \<Longrightarrow>
     step env 0 (solo u t (AtCreds a) m s) = Some (solo u t (AtUpdate a tk) m s')"
  "step env 0 (solo u t (AtUpdate a tk) None s) = Some (solo u t (AtUpdateBody a tk) (Some 0) s)"
  "appendUser t a s = (Inl p, s') \<Longrightarrow>
     step env 0 (solo u t (AtAppend a) m s) = Some (solo u t (Done (Some p)) m s')"
  "appendUser t a s = (Inr c, s') \<Longrightarrow>
     step env 0 (solo u t (AtAppend a) m s) = Some (solo u t (AtSubmit a c) m s')"
  "submit env u t a c s = (r, s') \<Longrightarrow>
     step env 0 (solo u t (AtSubmit a c) m s) = Some (solo u t (Done r) m s')"
  by (simp_all add: step_def solo_def setPc_def Let_def split: prod.splits)

lemma step_solo_update:
  "step env 0 (solo u t (AtUpdateBody a tk) m s) =
     Some (solo u t (AtUpdateUnlock a) m (UpdateUserSessionTokens u (Some tk) s))"
  "step env 0 (solo u t (AtUpdateUnlock a) m s) = Some (solo u t (AtAppend a) None s)"
  by (simp_all add: step_def solo_def setPc_def Let_def)

lemma reaches_refl: "reaches env sy sy"
  unfolding reaches_def by (rule exI[of _ 0]) simp

lemma reaches_step:
  assumes s: "step env 0 sy = Some sy1" and r: "reaches env sy1 sy'"
  shows "reaches env sy sy'"
proof -
  from r obtain n where "run env (replicate n (Step 0)) sy1 = Some sy'"
    unfolding reaches_def by blast
  with s have "run env (replicate (Suc n) (Step 0)) sy = Some sy'" by (simp add: exec_def)
  then show ?thesis unfolding reaches_def by blast
qed

lemma reaches_store:
  assumes "GetOrCreateUserSession u s = ((a, ok), s1)"
    and "reaches env (solo u t (AtStartChat a) None s1) sy'"
  shows "reaches env (solo u t AtLock None s) sy'"
proof (cases "userSessions s u")
  case None
  with assms(1) have e: "fst (insertSession u s) = a" "snd (insertSession u s) = s1"
    by (auto simp: GetOrCreateUserSession_def split: prod.splits)
  have "reaches env (solo u t (AtUnlock (fst (insertSession u s)) False) (Some 0) (snd (insertSession u s))) sy'"
    unfolding e by (rule reaches_step[OF step_solo(5) assms(2)])
  then have "reaches env (solo u t AtInsert (Some 0) s) sy'" by (rule reaches_step[OF step_solo(4)])
  then have "reaches env (solo u t AtLookup (Some 0) s) sy'" by (rule reaches_step[OF step_solo(3)[OF None]])
  then show ?thesis by (rule reaches_step[OF step_solo(1)])
next
  case (Some b)
  with assms(1) have e: "b = a" "s1 = s" by (auto simp: GetOrCreateUserSession_def)
  have "reaches env (solo u t (AtUnlock b True) (Some 0) s) sy'"
    using assms(2) unfolding e by (rule reaches_step[OF step_solo(5)])
  then have "reaches env (solo u t AtLookup (Some 0) s) sy'" by (rule reaches_step[OF step_solo(2)[OF Some]])
  then show ?thesis by (rule reaches_step[OF step_solo(1)])
qed

lemma reaches_turnBody:
  assumes "turnBody env u t a s = (r, s')"
  shows "reaches env (solo u t (AtAppend a) None s) (solo u t (Done r) None s')"
proof (cases "appendUser t a s")
  case (Pair x s1)
  show ?thesis
  proof (cases x)
    case (Inl p)
    with assms Pair have e: "r = Some p" "s' = s1" by (simp_all add: turnBody_def)
    from Pair Inl have ap: "appendUser t a s = (Inl p, s1)" by simp
    show ?thesis unfolding e by (rule reaches_step[OF step_solo(11)[OF ap] reaches_refl])
  next
    case (Inr c)
    with assms Pair have sb: "submit env u t a c s1 = (r, s')" by (simp add: turnBody_def)
    from Pair Inr have ap: "appendUser t a s = (Inr c, s1)" by simp
    have "reaches env (solo u t (AtSubmit a c) None s1) (solo u t (Done r) None s')"
      by (rule reaches_step[OF step_solo(13)[OF sb] reaches_refl])
    then show ?thesis by (rule reaches_step[OF step_solo(12)[OF ap]])
  qed
qed

lemma solo_run_is_processMessage:
  assumes "processMessage env u t s = (r, s')"
  shows "reaches env (spawn u t (initSys s)) (solo u t (Done r) None s')"
proof -
  obtain a ok s1 where G: "GetOrCreateUserSession u s = ((a, ok), s1)" by (metis prod.exhaust)
  obtain cr s3 where C: "loadCredentials env u a (startChat env a s1) = (cr, s3)" by fastforce
  have "reaches env (solo u t (AtCreds a) None (startChat env a s1)) (solo u t (Done r) None s')"
  proof (cases cr)
    case CredsPresent
    with assms G C have tb: "turnBody env u t a s3 = (r, s')" by (simp add: processMessage_def)
    from C CredsPresent have c: "loadCredentials env u a (startChat env a s1) = (CredsPresent, s3)" by simp
    show ?thesis
      by (rule reaches_step[OF step_solo(7)[OF c] reaches_turnBody[OF tb]])
  next
    case CredsFailed
    with assms G C have e: "r = None" "s' = s3" by (simp_all add: processMessage_def)
    from C CredsFailed have c: "loadCredentials env u a (startChat env a s1) = (CredsFailed, s3)" by simp
    show ?thesis unfolding e
      by (rule reaches_step[OF step_solo(8)[OF c] reaches_refl])
  next
    case (CredsLoaded tk)
    with assms G C have tb: "turnBody env u t a (UpdateUserSessionTokens u (Some tk) s3) = (r, s')"
      by (simp add: processMessage_def)
    from C CredsLoaded have c: "loadCredentials env u a (startChat env a s1) = (CredsLoaded tk, s3)" by simp
    have "reaches env (solo u t (AtUpdateUnlock a) (Some 0) (UpdateUserSessionTokens u (Some tk) s3))
            (solo u t (Done r) None s')"
      by (rule reaches_step[OF step_solo_update(2) reaches_turnBody[OF tb]])
    then have "reaches env (solo u t (AtUpdateBody a tk) (Some 0) s3) (solo u t (Done r) None s')"
      by (rule reaches_step[OF step_solo_update(1)])
    then have "reaches env (solo u t (AtUpdate a tk) None s3) (solo u t (Done r) None s')"
      by (rule reaches_step[OF step_solo(10)])
    then show ?thesis by (rule reaches_step[OF step_solo(9)[OF c]])
  qed
  then have "reaches env (solo u t (AtStartChat a) None s1) (solo u t (Done r) None s')"
    by (rule reaches_step[OF step_solo(6)])
  from reaches_store[OF G this] show ?thesis by (simp add: spawn_init)
qed

section \<open>Properties of the turn driver\<close>

text \<open>
  Claim C1 (the code departs from it).  A response whose parts hold tool invocations should
  have every invocation executed and one result per invocation resubmitted.  The loop
  returns at the first text part met while \<open>hasToolCalls\<close> is still false, so on the
  response "text, then \<open>create_contact\<close>" the text is published, the turn ends, and the
  invocation is never dispatched: the calls of the turn hold no tool call and no
  resubmission.
\<close>

theorem text_before_invocation_skips_dispatch:
  "fst (processMessage envTextThenCall userA ''Crea un contacto llamado Joe Doe'' state0) = None
   \<and> trace (snd (processMessage envTextThenCall userA ''Crea un contacto llamado Joe Doe'' state0)) =
       [EvStartChat, EvReadFile ''token.json'',
        EvSendMessage [Text ''Crea un contacto llamado Joe Doe''],
        EvPublish ''response.messages.5493815470353'' ''Claro, voy a crear el contacto.'']
   \<and> invocations [Text ''Claro, voy a crear el contacto.'',
                   FunctionCall ''create_contact'' [(''display_name'', GString ''Joe Doe'')]]
       = [(''create_contact'', [(''display_name'', GString ''Joe Doe'')])]
   \<and> toolCallsOf (trace (snd (processMessage envTextThenCall userA
                                  ''Crea un contacto llamado Joe Doe'' state0))) = []"
  by code_simp

text \<open>
  What the loop does in general.  A text part that no invocation precedes ends the turn
  with that text as the reply.
\<close>

lemma leading_text_is_reply:
  "leadingText parts = Some t \<Longrightarrow>
     toolLoop env u a parts False trs s = (LoopReturn, SendResponse env u t s)"
  by (rule toolLoop_leading_text)

text \<open>
  When no text part precedes the first invocation and the loop runs to its end, every
  invocation of the response has been dispatched, in order, and the collected batch holds
  one \<open>FunctionResponse\<close> per invocation, tagged with its name, whether the tool failed
  or not.
\<close>

lemma invocations_all_executed:
  assumes "leadingText parts = None"
    and "toolLoop env userID a parts False [] s = (LoopDone h trs, s')"
  shows "h = (invocations parts \<noteq> []) \<and> toolCallsOf (added s s') = invocations parts \<and>
         map responseName trs = map (Some \<circ> fst) (invocations parts)"
proof -
  from toolLoop_False[OF assms] obtain evs where
    e: "trace s' = trace s @ evs"
      "h = (invocations parts \<noteq> [])" "toolCallsOf evs = invocations parts"
      "\<exists>new. trs = [] @ new \<and> map responseName new = map (Some \<circ> fst) (invocations parts)"
    by blast
  from e(1) have "added s s' = evs" by (simp add: added_def)
  with e show ?thesis by auto
qed

text \<open>
  Claim C3 (the code departs from it).  Every turn should end with one outbound message.
  \<open>resp.Candidates[0].Content.Parts\<close> is read unguarded: on a response with no candidate
  the goroutine panics with an index out of range, on a first candidate without content
  with a nil dereference, and in both cases nothing is published for the user.
\<close>

theorem no_candidates_no_reply:
  "fst (processMessage envNoCandidates userA ''Hola'' state0) = Some IndexOutOfRange
   \<and> filter isPublish (trace (snd (processMessage envNoCandidates userA ''Hola'' state0))) = []
   \<and> fst (processMessage envNoContent userA ''Hola'' state0) = Some NilDereference
   \<and> filter isPublish (trace (snd (processMessage envNoContent userA ''Hola'' state0))) = []"
  by code_simp

text \<open>
  On every path that does not panic, the turn publishes exactly one message, on the
  user's response subject.
\<close>

lemma one_reply_unless_panic:
  assumes "fst (processMessage env userID t s0) = None"
  shows "\<exists>m. filter isPublish (added s0 (snd (processMessage env userID t s0))) =
              [EvPublish (natsResponseSubjectPrefix @ userID) (json_Marshal env (outgoing userID m))]"
proof -
  obtain r s' where P: "processMessage env userID t s0 = (r, s')" by fastforce
  with assms have r: "r = None" by simp
  from processMessage_trace[OF P] obtain pre rest where
    sh: "trace s' = trace s0 @ pre @ rest" "prelude pre"
      "(r = None \<and> (\<exists>m. rest = [pub env userID m])) \<or> (r \<noteq> None \<and> rest = []) \<or>
       turnShape env userID t r rest" by blast
  have a: "added s0 s' = pre @ rest" using sh(1) by (simp add: added_def)
  have "\<exists>m. filter isPublish rest = [pub env userID m]"
    using sh(3) r
    by (auto simp: turnShape_def finShape_def pub_def filter_publish_tools)
  then show ?thesis using a P filter_publish_prelude[OF sh(2)] by (simp add: pub_def)
qed

text \<open>
  Claim C4.  When the session of the user carries no credentials and
  \<open>LoadAndPrepareTokens\<close> fails with \<open>err\<close>, the turn publishes the explanatory message
  (the fixed text followed by \<open>err\<close>) and returns: apart from starting the chat session
  and reading the token file it makes no other call, so the tool dispatcher is never
  invoked and the message holds nothing of a tool result.
\<close>

theorem no_credentials_ends_turn:
  assumes "GetOrCreateUserSession userID s0 = ((a, ok), s1)"
    and "us_OAuthTokens (heap s1 a) = None"
    and "LoadAndPrepareTokens env (startChat env a s1) = (Inl err, s3)"
  shows "processMessage env userID t s0 = (None, SendResponse env userID (authMessage @ err @ '')'') s3)
       \<and> (\<exists>pre. added s0 (snd (processMessage env userID t s0)) =
                   pre @ [EvReadFile tokenCacheFile,
                          EvPublish (natsResponseSubjectPrefix @ userID)
                            (json_Marshal env (outgoing userID (authMessage @ err @ '')'')))]
                 \<and> (pre = [] \<or> pre = [EvStartChat]))
       \<and> filter isToolEvent (added s0 (snd (processMessage env userID t s0))) = []"
proof -
  have tok: "us_OAuthTokens (heap (startChat env a s1) a) = None"
    using assms(2) by (simp add: startChat_tokens)
  have lc: "loadCredentials env userID a (startChat env a s1)
              = (CredsFailed, SendResponse env userID (authMessage @ err @ '')'') s3)"
    using tok assms(3) by (simp add: loadCredentials_def)
  have pm: "processMessage env userID t s0 = (None, SendResponse env userID (authMessage @ err @ '')'') s3)"
    using assms(1) lc by (simp add: processMessage_def)
  have t1: "trace s1 = trace s0" using GetOrCreate_trace[of userID s0] assms(1) by simp
  have t3: "trace s3 = trace (startChat env a s1) @ [EvReadFile tokenCacheFile]"
    using LoadAndPrepareTokens_trace[of env "startChat env a s1"] assms(3) by simp
  from startChat_trace[of env a s1] t1 obtain pre where
    p: "trace (startChat env a s1) = trace s0 @ pre" "pre = [] \<or> pre = [EvStartChat]" by auto
  have tr: "trace (SendResponse env userID (authMessage @ err @ '')'') s3) =
         trace s0 @ pre @ [EvReadFile tokenCacheFile,
                          EvPublish (natsResponseSubjectPrefix @ userID)
                            (json_Marshal env (outgoing userID (authMessage @ err @ '')'')))]"
    using t3 p(1) by (simp add: SendResponse_trace)
  have ad: "added s0 (snd (processMessage env userID t s0)) =
         pre @ [EvReadFile tokenCacheFile,
                          EvPublish (natsResponseSubjectPrefix @ userID)
                            (json_Marshal env (outgoing userID (authMessage @ err @ '')'')))]"
    using pm tr by (simp add: added_def)
  have "filter isToolEvent (added s0 (snd (processMessage env userID t s0))) = []"
    using ad p(2) by auto
  with pm ad p(2) show ?thesis by blast
qed

theorem no_credentials_ends_turn_witness:
  "GetOrCreateUserSession userA state0 = ((0, False), snd (GetOrCreateUserSession userA state0))
   \<and> us_OAuthTokens (heap (snd (GetOrCreateUserSession userA state0)) 0) = None
   \<and> fst (LoadAndPrepareTokens envNoToken (startChat envNoToken 0 (snd (GetOrCreateUserSession userA state0))))
       = Inl ''unable to read token.json: open token.json: no such file or directory. Please ensure the MCP server has run and authorized.''
   \<and> fst (processMessage envNoToken userA ''Hola'' state0) = None
   \<and> added state0 (snd (processMessage envNoToken userA ''Hola'' state0)) =
       [EvStartChat, EvReadFile ''token.json'',
        EvPublish ''response.messages.5493815470353''
          ''Lo siento, necesito que autorices tu cuenta de Google. Puedes hacerlo siguiendo las instrucciones del servidor MCP. (Error: unable to read token.json: open token.json: no such file or directory. Please ensure the MCP server has run and authorized.)'']"
proof -
  have g: "GetOrCreateUserSession userA state0 = ((0, False), snd (GetOrCreateUserSession userA state0))"
    by (simp add: GetOrCreateUserSession_def insertSession_def state0_def Let_def)
  have n: "us_OAuthTokens (heap (snd (GetOrCreateUserSession userA state0)) 0) = None"
    by (simp add: GetOrCreateUserSession_def insertSession_def state0_def Let_def emptySession_def)
  have l: "LoadAndPrepareTokens envNoToken (startChat envNoToken 0 (snd (GetOrCreateUserSession userA state0)))
     = (Inl ''unable to read token.json: open token.json: no such file or directory. Please ensure the MCP server has run and authorized.'',
        snd (LoadAndPrepareTokens envNoToken (startChat envNoToken 0 (snd (GetOrCreateUserSession userA state0)))))"
    by (simp add: LoadAndPrepareTokens_def envNoToken_def scriptEnv_def tokenCacheFile_def Let_def
        split: prod.splits)
  have a: "added state0 (snd (processMessage envNoToken userA ''Hola'' state0)) =
       [EvStartChat, EvReadFile ''token.json'',
        EvPublish ''response.messages.5493815470353''
          ''Lo siento, necesito que autorices tu cuenta de Google. Puedes hacerlo siguiendo las instrucciones del servidor MCP. (Error: unable to read token.json: open token.json: no such file or directory. Please ensure the MCP server has run and authorized.)'']"
    by code_simp
  have lf: "fst (LoadAndPrepareTokens envNoToken (startChat envNoToken 0 (snd (GetOrCreateUserSession userA state0))))
       = Inl ''unable to read token.json: open token.json: no such file or directory. Please ensure the MCP server has run and authorized.''"
    using l by (metis fst_conv)
  from no_credentials_ends_turn[OF g n l, of "''Hola''"]
  have c: "fst (processMessage envNoToken userA ''Hola'' state0) = None" by simp
  show ?thesis by (rule conjI[OF g conjI[OF n conjI[OF lf conjI[OF c a]]]])
qed

text \<open>
  Claim C5.  A turn makes at most one round of tool calls: after the second submission to
  the model (the resubmission of the collected results) it makes no tool call, sends no
  request to an external operation and submits nothing to the model again; all that can
  follow is the publish of the reply.
\<close>

theorem single_tool_round:
  "filter (\<lambda>e. isModelCall e \<or> isToolEvent e)
     (afterModelCalls 2 (added s0 (snd (processMessage env userID t s0)))) = []"
proof -
  obtain r s' where P: "processMessage env userID t s0 = (r, s')" by fastforce
  from processMessage_trace[OF P] obtain pre rest where
    sh: "trace s' = trace s0 @ pre @ rest" "prelude pre"
      "(r = None \<and> (\<exists>m. rest = [pub env userID m])) \<or> (r \<noteq> None \<and> rest = []) \<or>
       turnShape env userID t r rest" by blast
  have a: "added s0 s' = pre @ rest" using sh(1) by (simp add: added_def)
  from sh(3) have "filter (\<lambda>e. isModelCall e \<or> isToolEvent e) (afterModelCalls 2 (pre @ rest)) = []"
  proof (elim disjE)
    assume "r = None \<and> (\<exists>m. rest = [pub env userID m])"
    then have "list_all (\<lambda>e. \<not> isModelCall e) rest" by (auto simp: pub_def)
    from after2_short[OF sh(2) this] show ?thesis by simp
  next
    assume "r \<noteq> None \<and> rest = []"
    then have "list_all (\<lambda>e. \<not> isModelCall e) rest" by simp
    from after2_short[OF sh(2) this] show ?thesis by simp
  next
    assume "turnShape env userID t r rest"
    from after2_shape[OF sh(2) this] show ?thesis .
  qed
  with a P show ?thesis by simp
qed

text \<open>
  A turn with two submissions: the follow-up response asks for \<open>create_contact\<close>, which
  is never dispatched; its text is the reply.
\<close>

theorem single_tool_round_witness:
  "added state0 (snd (processMessage envSecondRound userA ''Lista mis contactos'' state0)) =
     [EvStartChat, EvReadFile ''token.json'',
      EvSendMessage [Text ''Lista mis contactos''],
      EvToolCall ''list_contacts'' [],
      EvRPC (ReqListConnections
        \<lparr>lc_Common = Some \<lparr>AuthTokens = Some \<lparr>AccessToken = ''tok'', RefreshToken = ''tok'',
                                                  TokenType = ''Bearer'', ExpiryUnix = 0\<rparr>\<rparr>,
         lc_PageSize = 10\<rparr>),
      EvSendMessage [FunctionResponse ''list_contacts'' [(''result'', GMap [(''contacts'', GList [])])]],
      EvPublish ''response.messages.5493815470353'' ''No tienes contactos.'']
   \<and> filter (\<lambda>e. isModelCall e \<or> isToolEvent e)
       (afterModelCalls 2 (added state0 (snd (processMessage envSecondRound userA ''Lista mis contactos'' state0)))) = []"
proof -
  have a: "added state0 (snd (processMessage envSecondRound userA ''Lista mis contactos'' state0)) =
     [EvStartChat, EvReadFile ''token.json'',
      EvSendMessage [Text ''Lista mis contactos''],
      EvToolCall ''list_contacts'' [],
      EvRPC (ReqListConnections
        \<lparr>lc_Common = Some \<lparr>AuthTokens = Some \<lparr>AccessToken = ''tok'', RefreshToken = ''tok'',
                                                  TokenType = ''Bearer'', ExpiryUnix = 0\<rparr>\<rparr>,
         lc_PageSize = 10\<rparr>),
      EvSendMessage [FunctionResponse ''list_contacts'' [(''result'', GMap [(''contacts'', GList [])])]],
      EvPublish ''response.messages.5493815470353'' ''No tienes contactos.'']"
    by code_simp
  show ?thesis
    by (rule conjI[OF a single_tool_round[of state0 envSecondRound userA "''Lista mis contactos''"]])
qed

section \<open>Properties of the tool dispatcher\<close>

text \<open>
  Claim C9.  For a tool name outside the five handlers, \<open>ExecuteToolCall\<close> returns (it does
  not panic) the error \<open>unknown tool: <name>\<close> and calls no external operation; the turn
  driver records it as the \<open>FunctionResponse\<close> of that name with the error and goes on
  with the remaining parts.
\<close>

theorem unknown_tool_is_failure:
  assumes "toolName \<notin> set knownTools"
  shows "ExecuteToolCall env userID tokens toolName as s =
           (Return (Inl (''unknown tool: '' @ toolName)), logk (EvToolCall toolName as) s)
       \<and> toolLoop env userID a (FunctionCall toolName as # rest) h trs s =
           toolLoop env userID a rest True
             (trs @ [FunctionResponse toolName [(''error'', GString (''unknown tool: '' @ toolName))]])
             (logk (EvToolCall toolName as) s)"
  by (simp add: ExecuteToolCall_unknown[OF assms])

theorem unknown_tool_is_failure_witness:
  "''delete_all_contacts'' \<notin> set knownTools
   \<and> fst (ExecuteToolCall envChat userA None ''delete_all_contacts'' [] state0)
       = Return (Inl ''unknown tool: delete_all_contacts'')
   \<and> trace (snd (ExecuteToolCall envChat userA None ''delete_all_contacts'' [] state0))
       = [EvToolCall ''delete_all_contacts'' []]"
proof -
  have k: "''delete_all_contacts'' \<notin> set knownTools" by (simp add: knownTools_def)
  from unknown_tool_is_failure[OF k, of envChat userA None "[]" state0] k show ?thesis
    by (simp add: state0_def)
qed

text \<open>
  Claim C10 as stated fails: an argument of the wrong type is not forwarded as it is.
  \<open>create_contact\<close> called with the number 42 as \<open>display_name\<close> sends the request
  whose display name is the empty string, the same request as when the argument is
  absent.
\<close>

theorem mistyped_argument_dropped:
  "rpcsOf (trace (snd (ExecuteToolCall envChat userA None ''create_contact''
             [(''display_name'', GFloat64 42)] state0))) =
     [ReqCreateContact \<lparr>cc_Common = Some \<lparr>AuthTokens = None\<rparr>, cc_DisplayName = [],
                        cc_Email = [], cc_PhoneNumber = []\<rparr>]
   \<and> rpcsOf (trace (snd (ExecuteToolCall envChat userA None ''create_contact''
             [(''display_name'', GFloat64 42)] state0))) =
     rpcsOf (trace (snd (ExecuteToolCall envChat userA None ''create_contact'' [] state0)))"
  by code_simp

text \<open>
  Claim C10, amended.  Whatever the arguments, every handler sends exactly one request to
  its external operation (the dispatcher rejects nothing).  \<open>calendar_id\<close> of
  \<open>list_calendar_events\<close> defaults to \<open>primary\<close>, \<open>max_results\<close> and \<open>page_size\<close> to 10;
  every other string field carries the string supplied, and the empty string when the
  argument is absent or not a string.
\<close>

theorem dispatcher_argument_handling:
  "added s (snd (ExecuteToolCall env userID tokens ''list_calendar_events'' as s)) =
     [EvToolCall ''list_calendar_events'' as,
      EvRPC (ReqListEvents
        \<lparr>le_Common = Some \<lparr>AuthTokens = tokens\<rparr>,
         le_CalendarId = stringArg as ''calendar_id'' ''primary'',
         le_MaxResults = int32Arg env as ''max_results'' 10\<rparr>)]
   \<and> added s (snd (ExecuteToolCall env userID tokens ''create_calendar_event'' as s)) =
     [EvToolCall ''create_calendar_event'' as,
      EvRPC (ReqCreateEvent
        \<lparr>ce_Common = Some \<lparr>AuthTokens = tokens\<rparr>,
         ce_CalendarId = stringArg as ''calendar_id'' [],
         ce_Summary = stringArg as ''summary'' [],
         ce_Description = stringArg as ''description'' [],
         ce_StartTime = stringArg as ''start_time'' [],
         ce_EndTime = stringArg as ''end_time'' [],
         ce_TimeZone = stringArg as ''time_zone'' []\<rparr>)]
   \<and> added s (snd (ExecuteToolCall env userID tokens ''send_email'' as s)) =
     [EvToolCall ''send_email'' as,
      EvRPC (ReqSendEmail
        \<lparr>se_Common = Some \<lparr>AuthTokens = tokens\<rparr>,
         se_To = stringArg as ''to'' [],
         se_Subject = stringArg as ''subject'' [],
         se_Body = stringArg as ''body'' []\<rparr>)]
   \<and> added s (snd (ExecuteToolCall env userID tokens ''list_contacts'' as s)) =
     [EvToolCall ''list_contacts'' as,
      EvRPC (ReqListConnections
        \<lparr>lc_Common = Some \<lparr>AuthTokens = tokens\<rparr>,
         lc_PageSize = int32Arg env as ''page_size'' 10\<rparr>)]
   \<and> added s (snd (ExecuteToolCall env userID tokens ''create_contact'' as s)) =
     [EvToolCall ''create_contact'' as,
      EvRPC (ReqCreateContact
        \<lparr>cc_Common = Some \<lparr>AuthTokens = tokens\<rparr>,
         cc_DisplayName = stringArg as ''display_name'' [],
         cc_Email = stringArg as ''email'' [],
         cc_PhoneNumber = stringArg as ''phone_number'' []\<rparr>)]"
  by (simp add: ExecuteToolCall_def Let_def added_def stringOrZero_arg assertString_arg
      assertFloat64_arg split: prod.splits)

section \<open>Properties of the bus functions\<close>

text \<open>
  Claim C8 as stated fails for outbound responses: \<open>SendResponse\<close> returns nothing, and
  its effect is the same whether the publish failed or not, so its caller cannot see the
  failure.
\<close>

theorem outbound_failure_unreported:
  "fst (nats_Publish envBusDown (natsResponseSubjectPrefix @ userA)
          (json_Marshal envBusDown (outgoing userA ''Hola'')) (world state0)) = Some ''nats: connection closed''
   \<and> SendResponse envBusDown userA ''Hola'' state0 = SendResponse envChat userA ''Hola'' state0"
  by (simp add: SendResponse_def envBusDown_def envChat_def scriptEnv_def Let_def)

text \<open>
  Claim C8, amended.  A publish failure of an inbound envelope is returned by
  \<open>PublishIncomingMessage\<close> to its caller as an error that wraps the bus error.  For an
  outbound response \<open>SendResponse\<close> makes the publish call and returns nothing: what it
  leaves does not depend on the error of the publish.
\<close>

theorem publish_failure_reporting:
  "(json_MarshalPayload env payload = Inr b \<and> fst (nats_Publish env natsSubject b (world s)) = Some err
      \<longrightarrow> fst (PublishIncomingMessage env payload s)
            = Some (''error publishing incoming webhook to NATS: '' @ err))
   \<and> SendResponse env userID message s =
       (logk (EvPublish (natsResponseSubjectPrefix @ userID) (json_Marshal env (outgoing userID message))) s)
         \<lparr>world := snd (nats_Publish env (natsResponseSubjectPrefix @ userID)
                           (json_Marshal env (outgoing userID message)) (world s))\<rparr>"
  by (auto simp: PublishIncomingMessage_def SendResponse_def Let_def split: prod.splits option.splits)

theorem publish_failure_reporting_witness:
  "json_MarshalPayload envBusDown (textPayload userA ''Hola'') = Inr ''payload''
   \<and> fst (nats_Publish envBusDown natsSubject ''payload'' (world state0)) = Some ''nats: connection closed''
   \<and> fst (PublishIncomingMessage envBusDown (textPayload userA ''Hola'') state0)
        = Some ''error publishing incoming webhook to NATS: nats: connection closed''"
  using publish_failure_reporting[of envBusDown "textPayload userA ''Hola''" "''payload''" state0 "''nats: connection closed''"]
  by (simp add: envBusDown_def scriptEnv_def)







section \<open>Properties of the session store and of the goroutines\<close>

text \<open>
  Claim C6.  In every state a run can reach, whatever the interleaving: two goroutines
  of the same user that have obtained their session hold the same pointer, and it is the
  one entry of the map for that user; a goroutine between its lookup and its insert sees
  no entry for its user (nothing was inserted in between: lookup-or-insert is atomic);
  a goroutine inside the critical section can always take its next step; and for a
  goroutine running alone \<open>GetOrCreateUserSession\<close> returns the pointer the map then
  holds.
\<close>

theorem same_session_for_user:
  assumes "run env acts (initSys s0) = Some sy"
  shows "(\<forall>i<length (goroutines sy). \<forall>j<length (goroutines sy). \<forall>a b.
            g_userID (goroutines sy ! i) = g_userID (goroutines sy ! j) \<and>
            sessionOf (g_pc (goroutines sy ! i)) = Some a \<and>
            sessionOf (g_pc (goroutines sy ! j)) = Some b
            \<longrightarrow> a = b \<and> userSessions (shared sy) (g_userID (goroutines sy ! i)) = Some a)
       \<and> (\<forall>i<length (goroutines sy). g_pc (goroutines sy ! i) = AtInsert
            \<longrightarrow> userSessions (shared sy) (g_userID (goroutines sy ! i)) = None)
       \<and> (\<forall>i<length (goroutines sy). inCritical (g_pc (goroutines sy ! i)) \<longrightarrow> step env i sy \<noteq> None)
       \<and> userSessions (snd (GetOrCreateUserSession U s)) U
           = Some (fst (fst (GetOrCreateUserSession U s)))"
proof -
  note D = storeInvD[OF reachable_storeInv[OF assms]]
  have 1: "a = b \<and> userSessions (shared sy) (g_userID (goroutines sy ! i)) = Some a"
    if "i < length (goroutines sy)" "j < length (goroutines sy)"
      "g_userID (goroutines sy ! i) = g_userID (goroutines sy ! j)"
      "sessionOf (g_pc (goroutines sy ! i)) = Some a" "sessionOf (g_pc (goroutines sy ! j)) = Some b"
    for i j a b
  proof -
    have "userSessions (shared sy) (g_userID (goroutines sy ! i)) = Some a"
      using D(3)[OF that(1), of a] that(4) by (simp add: pcAt_def userAt_def)
    moreover have "userSessions (shared sy) (g_userID (goroutines sy ! j)) = Some b"
      using D(3)[OF that(2), of b] that(5) by (simp add: pcAt_def userAt_def)
    ultimately show ?thesis using that(3) by simp
  qed
  have 2: "userSessions (shared sy) (g_userID (goroutines sy ! i)) = None"
    if "i < length (goroutines sy)" "g_pc (goroutines sy ! i) = AtInsert" for i
    using D(4)[OF that(1)] that(2) by (simp add: pcAt_def userAt_def)
  show ?thesis using 1 2 critical_enabled GetOrCreate_entry by blast
qed

theorem same_session_for_user_witness:
  "run envChat twoTurns (initSys state0) \<noteq> None
   \<and> map g_userID (goroutines (the (run envChat twoTurns (initSys state0)))) = [''549'', ''549'']
   \<and> map (sessionOf \<circ> g_pc) (goroutines (the (run envChat twoTurns (initSys state0)))) = [Some 0, Some 0]
   \<and> userSessions (shared (the (run envChat twoTurns (initSys state0)))) ''549'' = Some 0"
proof -
  define sy where "sy = the (run envChat twoTurns (initSys state0))"
  have ne: "run envChat twoTurns (initSys state0) \<noteq> None" by code_simp
  then have r: "run envChat twoTurns (initSys state0) = Some sy" by (simp add: sy_def)
  have u: "map g_userID (goroutines (the (run envChat twoTurns (initSys state0)))) = [''549'', ''549'']"
    by code_simp
  have p: "map (sessionOf \<circ> g_pc) (goroutines (the (run envChat twoTurns (initSys state0)))) = [Some 0, Some 0]"
    by code_simp
  from u have len: "length (goroutines sy) = 2" unfolding sy_def[symmetric]
    by (metis length_map list.size(3,4) One_nat_def Suc_1 add.commute plus_1_eq_Suc)
  have u0: "g_userID (goroutines sy ! 0) = ''549''" "g_userID (goroutines sy ! 1) = ''549''"
    using u len unfolding sy_def[symmetric] by (metis nth_map nth_Cons_0 zero_less_numeral,
        metis nth_map nth_Cons_0 nth_Cons_Suc One_nat_def one_less_numeral_iff semiring_norm(76))
  have p0: "sessionOf (g_pc (goroutines sy ! 0)) = Some 0" "sessionOf (g_pc (goroutines sy ! 1)) = Some 0"
    using p len unfolding sy_def[symmetric]
    by (metis comp_apply nth_map nth_Cons_0 zero_less_numeral,
        metis comp_apply nth_map nth_Cons_0 nth_Cons_Suc One_nat_def one_less_numeral_iff semiring_norm(76))
  from same_session_for_user[OF r] have
    "\<forall>i<length (goroutines sy). \<forall>j<length (goroutines sy). \<forall>a b.
            g_userID (goroutines sy ! i) = g_userID (goroutines sy ! j) \<and>
            sessionOf (g_pc (goroutines sy ! i)) = Some a \<and>
            sessionOf (g_pc (goroutines sy ! j)) = Some b
            \<longrightarrow> a = b \<and> userSessions (shared sy) (g_userID (goroutines sy ! i)) = Some a"
    by blast
  then have "userSessions (shared sy) (g_userID (goroutines sy ! 0)) = Some 0"
    using len u0 p0 by (metis zero_less_numeral one_less_numeral_iff semiring_norm(76))
  then have e: "userSessions (shared (the (run envChat twoTurns (initSys state0)))) ''549'' = Some 0"
    using u0 by (simp add: sy_def)
  show ?thesis by (rule conjI[OF ne conjI[OF u conjI[OF p e]]])
qed

text \<open>
  Claim C2 as stated fails: turns of the same user are not serialized.  Two messages of
  user 549 are delivered; both goroutines obtain the same session, both append their
  text to the same dialogue, and both stand before their submission to the model at the
  same time.
\<close>

theorem same_user_turns_overlap:
  "(case run envChat twoTurns (initSys state0) of
      None \<Rightarrow> False
    | Some sy \<Rightarrow>
        map g_userID (goroutines sy) = [''549'', ''549''] \<and>
        map g_pc (goroutines sy) = [AtSubmit 0 0, AtSubmit 0 0] \<and>
        list_all inTurn (map g_pc (goroutines sy)) \<and>
        History (chats (shared sy) 0) =
          [\<lparr>Parts = [Text ''hola''], Role = ''user''\<rparr>, \<lparr>Parts = [Text ''que tal''], Role = ''user''\<rparr>])"
  by code_simp

text \<open>
  Claim C2, amended.  Between goroutines only the critical sections of the session store
  are exclusive: a goroutine is between \<open>Lock\<close> and \<open>Unlock\<close> of \<open>sessionsMutex\<close>, in
  \<open>GetOrCreateUserSession\<close> or in \<open>UpdateUserSessionTokens\<close>, exactly when it holds the
  mutex, so at most one goroutine is inside such a section at a time.  The turns
  themselves are not ordered: the subscription callback starts a goroutine for every
  message with a sender and a text, whatever turns are in progress.
\<close>

theorem only_store_sections_exclude:
  assumes "run env acts (initSys s0) = Some sy"
  shows "(\<forall>i<length (goroutines sy). holdsLock (g_pc (goroutines sy ! i)) = (mutex sy = Some i))
       \<and> (\<forall>i<length (goroutines sy). \<forall>j<length (goroutines sy).
             holdsLock (g_pc (goroutines sy ! i)) \<and> holdsLock (g_pc (goroutines sy ! j)) \<longrightarrow> i = j)
       \<and> (\<forall>i<length (goroutines sy). \<forall>j<length (goroutines sy).
             inCritical (g_pc (goroutines sy ! i)) \<and> inCritical (g_pc (goroutines sy ! j)) \<longrightarrow> i = j)
       \<and> (\<forall>d p e es ch chs m ms.
             json_UnmarshalPayload env d = Inr p \<and> Entry p = e # es \<and> we_Changes e = ch # chs \<and>
             wv_Messages (wch_Value ch) = m # ms \<and> wm_From m \<noteq> [] \<and> wm_TextBody m \<noteq> []
             \<longrightarrow> onIncoming env d sy = spawn (wm_From m) (wm_TextBody m) sy)"
proof -
  note D = storeInvD[OF reachable_storeInv[OF assms]]
  have 1: "holdsLock (g_pc (goroutines sy ! i)) = (mutex sy = Some i)"
    if "i < length (goroutines sy)" for i
    using D(2)[OF that] by (simp add: pcAt_def)
  have 2: "i = j" if "i < length (goroutines sy)" "j < length (goroutines sy)"
    "holdsLock (g_pc (goroutines sy ! i))" "holdsLock (g_pc (goroutines sy ! j))" for i j
    using 1[OF that(1)] 1[OF that(2)] that(3,4) by simp
  have 3: "i = j" if "i < length (goroutines sy)" "j < length (goroutines sy)"
    "inCritical (g_pc (goroutines sy ! i))" "inCritical (g_pc (goroutines sy ! j))" for i j
    using 2[OF that(1,2)] that(3,4) critical_holdsLock by blast
  show ?thesis using 1 2 3 onIncoming_spawns by blast
qed

text \<open>
  Two runs: goroutine 0 inside \<open>GetOrCreateUserSession\<close>, and goroutine 0 inside
  \<open>UpdateUserSessionTokens\<close>; each time it holds the mutex and goroutine 1 cannot take
  its \<open>Lock\<close>.
\<close>

theorem only_store_sections_exclude_witness:
  "run envChat oneInside (initSys state0) \<noteq> None
   \<and> map g_pc (goroutines (the (run envChat oneInside (initSys state0)))) = [AtInsert, AtLock]
   \<and> mutex (the (run envChat oneInside (initSys state0))) = Some 0
   \<and> step envChat 1 (the (run envChat oneInside (initSys state0))) = None
   \<and> run envChat updating (initSys state0) \<noteq> None
   \<and> map (holdsLock \<circ> g_pc) (goroutines (the (run envChat updating (initSys state0)))) = [True, False]
   \<and> map (inCritical \<circ> g_pc) (goroutines (the (run envChat updating (initSys state0)))) = [False, False]
   \<and> mutex (the (run envChat updating (initSys state0))) = Some 0
   \<and> step envChat 1 (the (run envChat updating (initSys state0))) = None"
proof -
  define sy where "sy = the (run envChat oneInside (initSys state0))"
  have ne: "run envChat oneInside (initSys state0) \<noteq> None" by code_simp
  then have r: "run envChat oneInside (initSys state0) = Some sy" by (simp add: sy_def)
  have p: "map g_pc (goroutines (the (run envChat oneInside (initSys state0)))) = [AtInsert, AtLock]"
    by code_simp
  have b: "step envChat 1 (the (run envChat oneInside (initSys state0))) = None"
    by code_simp
  from p have len: "0 < length (goroutines sy)" and p0: "g_pc (goroutines sy ! 0) = AtInsert"
    unfolding sy_def[symmetric] by (auto simp: map_eq_Cons_conv)
  from only_store_sections_exclude[OF r] len
  have "holdsLock (g_pc (goroutines sy ! 0)) = (mutex sy = Some 0)" by blast
  with p0 have m: "mutex (the (run envChat oneInside (initSys state0))) = Some 0"
    by (simp add: sy_def)
  define sz where "sz = the (run envChat updating (initSys state0))"
  have ne2: "run envChat updating (initSys state0) \<noteq> None" by code_simp
  then have r2: "run envChat updating (initSys state0) = Some sz" by (simp add: sz_def)
  have h2: "map (holdsLock \<circ> g_pc) (goroutines (the (run envChat updating (initSys state0)))) = [True, False]"
    by code_simp
  have c2: "map (inCritical \<circ> g_pc) (goroutines (the (run envChat updating (initSys state0)))) = [False, False]"
    by code_simp
  have b2: "step envChat 1 (the (run envChat updating (initSys state0))) = None"
    by code_simp
  from h2 have len2: "0 < length (goroutines sz)" and q0: "holdsLock (g_pc (goroutines sz ! 0))"
    unfolding sz_def[symmetric] by (auto simp: map_eq_Cons_conv)
  from only_store_sections_exclude[OF r2] len2
  have "holdsLock (g_pc (goroutines sz ! 0)) = (mutex sz = Some 0)" by blast
  with q0 have m2: "mutex (the (run envChat updating (initSys state0))) = Some 0"
    by (simp add: sz_def)
  show ?thesis
    by (rule conjI[OF ne conjI[OF p conjI[OF m conjI[OF b conjI[OF ne2 conjI[OF h2 conjI[OF c2 conjI[OF m2 b2]]]]]]]])
qed

end
